theory Spec2Isabelle
  imports Main
begin

section \<open>Values, exceptions and the outside world\<close>

text \<open>
  The Python exceptions that the code can meet. All of them are subclasses of
  \<^verbatim>\<open>Exception\<close>, so every \<^verbatim>\<open>except Exception\<close> of the source catches each of them.
  \<open>AttributeError\<close> carries the name of the missing attribute; \<open>RequestException\<close> is any
  error raised by \<^verbatim>\<open>requests\<close> (a transport error).
\<close>

datatype exn =
    AttributeError string
  | ValueError
  | KeyError
  | IndexError
  | TypeError
  | OSError
  | JSONDecodeError
  | RequestException

text \<open>
  A parsed JSON document, as \<^verbatim>\<open>response.json()\<close> returns it. An object holds its
  members in order (its keys are distinct, as in the dict that \<^verbatim>\<open>json.loads\<close> builds);
  numbers are integers here.
\<close>

datatype json =
    JNull
  | JBool bool
  | JNum int
  | JStr string
  | JArr "json list"
  | JObj "(string \<times> json) list"

text \<open>Python's truth value of a JSON value (\<^verbatim>\<open>if not upload_info\<close>).\<close>

fun truthy :: "json \<Rightarrow> bool" where
  "truthy JNull = False"
| "truthy (JBool b) = b"
| "truthy (JNum n) = (n \<noteq> 0)"
| "truthy (JStr s) = (s \<noteq> [])"
| "truthy (JArr xs) = (xs \<noteq> [])"
| "truthy (JObj kvs) = (kvs \<noteq> [])"

text \<open>\<^verbatim>\<open>v[key]\<close> with a string key: only a dict answers, with KeyError for a missing key.\<close>

fun subscript_key :: "json \<Rightarrow> string \<Rightarrow> exn + json" where
  "subscript_key (JObj kvs) k = (case map_of kvs k of None \<Rightarrow> Inl KeyError | Some v \<Rightarrow> Inr v)"
| "subscript_key v k = Inl TypeError"

text \<open>
  \<^verbatim>\<open>v[0]\<close>: the first element of a list, the first character of a string, KeyError on a
  dict (the keys of a JSON object are strings), TypeError on the other values.
\<close>

fun subscript_0 :: "json \<Rightarrow> exn + json" where
  "subscript_0 (JArr []) = Inl IndexError"
| "subscript_0 (JArr (x # xs)) = Inr x"
| "subscript_0 (JStr []) = Inl IndexError"
| "subscript_0 (JStr (c # cs)) = Inr (JStr [c])"
| "subscript_0 (JObj kvs) = Inl KeyError"
| "subscript_0 v = Inl TypeError"

text \<open>
  What \<^verbatim>\<open>len(v)\<close> and \<^verbatim>\<open>for x in v\<close> see: the elements of a list, the characters of a
  string, the keys of a dict; the other values are not iterable (TypeError).
\<close>

fun iterate :: "json \<Rightarrow> exn + json list" where
  "iterate (JArr xs) = Inr xs"
| "iterate (JStr s) = Inr (map (\<lambda>c. JStr [c]) s)"
| "iterate (JObj kvs) = Inr (map (\<lambda>kv. JStr (fst kv)) kvs)"
| "iterate v = Inl TypeError"

text \<open>
  One constructor for each \<^verbatim>\<open>requests.*\<close> call of \<^verbatim>\<open>aem_uploader.py\<close>, with the URL and
  the data handed to it (the headers, which only carry the bearer token, are left out):
  \<^item> \<open>Get_json url\<close>: the existence check \<^verbatim>\<open>requests.get(f'{host}{folder_path}.json')\<close>;
  \<^item> \<open>Post_folder url\<close>: the folder creation, with the fixed \<^verbatim>\<open>sling:Folder\<close> data;
  \<^item> \<open>Post_initiate url fileName fileSize\<close>;
  \<^item> \<open>Put_binary uri data\<close>: \<^verbatim>\<open>requests.put(uri, data=file_data)\<close>, the URI being whatever
    JSON value the initiate response listed;
  \<^item> \<open>Post_complete host completeURI data\<close>: the two parts of the URL before formatting,
    and the form fields (the upload token as the JSON value it is).
\<close>

datatype form_value = Text string | Json json

datatype request =
    Get_json string
  | Post_folder string
  | Post_initiate string string nat
  | Put_binary json string
  | Post_complete string json "(string \<times> form_value) list"

text \<open>
  What a call gives back: an exception raised by \<^verbatim>\<open>requests\<close>, or a response with its
  status code and its body read as JSON (\<open>None\<close> when the body is no JSON document, so that
  \<^verbatim>\<open>response.json()\<close> raises).
\<close>

datatype response =
    Transport_error
  | Response nat "json option"

text \<open>
  The observable history: every outbound call with its answer, every \<^verbatim>\<open>time.sleep\<close>, and
  every entry into \<^verbatim>\<open>process_image\<close> (source image and target folder).
\<close>

datatype event =
    Call request response
  | Sleep int
  | Process_image string "string option"

text \<open>
  A generated image, as \<^verbatim>\<open>upload\<close> reads it: the name and the stem of its path, and the
  bytes of the file (\<open>None\<close> when the file cannot be read, so that \<^verbatim>\<open>stat\<close> and
  \<^verbatim>\<open>open\<close> raise).
\<close>

record asset =
  asset_name :: string
  asset_stem :: string
  asset_file :: "string option"

text \<open>A capture time, seen through the \<^verbatim>\<open>strftime\<close> fields that the code formats.\<close>

record datetime =
  fmt_Y :: string
  fmt_m :: string
  fmt_d :: string

text \<open>
  The world outside the program. \<open>responses\<close> are the answers that the remote service
  will give to the next calls, in order (when they run out, a call is a transport error);
  \<open>renders\<close> are the outcomes of the next image generations (\<open>None\<close>: some step before
  the upload raised; none left counts as \<open>None\<close>); \<open>picks\<close> are the next draws of
  \<^verbatim>\<open>random.choice\<close>; \<open>trace\<close> is the history so far.
\<close>

record world =
  responses :: "response list"
  renders :: "(asset \<times> datetime \<times> string list) option list"
  picks :: "nat list"
  trace :: "event list"

definition http :: "request \<Rightarrow> world \<Rightarrow> response \<times> world" where
  "http req w =
     (case responses w of
        [] \<Rightarrow> (Transport_error, w\<lparr>trace := trace w @ [Call req Transport_error]\<rparr>)
      | r # rs \<Rightarrow> (r, w\<lparr>responses := rs, trace := trace w @ [Call req r]\<rparr>))"

text \<open>\<^verbatim>\<open>time.sleep(d)\<close> raises ValueError for a negative length.\<close>

definition sleep :: "int \<Rightarrow> world \<Rightarrow> (exn + unit) \<times> world" where
  "sleep d w = (if d < 0 then (Inl ValueError, w) else (Inr (), w\<lparr>trace := trace w @ [Sleep d]\<rparr>))"

text \<open>\<^verbatim>\<open>range(n)\<close>.\<close>

definition py_range :: "int \<Rightarrow> int list" where
  "py_range n = [0..n - 1]"

text \<open>How the body of a loop ends: with \<^verbatim>\<open>return v\<close> or with \<^verbatim>\<open>continue\<close>.\<close>

datatype 'a flow = Return 'a | Continue

section \<open>\<^verbatim>\<open>aem_uploader.py\<close>\<close>

text \<open>
  An \<^verbatim>\<open>AEMUploader\<close> object. \<^verbatim>\<open>__init__\<close> always sets \<open>aem_enabled\<close>; the other
  attributes are set only under \<^verbatim>\<open>if self.aem_enabled\<close>, so each of them may be absent
  (\<open>None\<close>, and reading it raises AttributeError; \<open>logger\<close> tells whether
  \<^verbatim>\<open>self.logger\<close> exists). \<open>aem_token\<close> is the token as an f-string shows it.
\<close>

record AEMUploader =
  aem_enabled :: bool
  aem_host :: "string option"
  aem_token :: "string option"
  aem_destination :: "string option"
  put_into_date_folder :: "bool option"
  logger :: bool

text \<open>\<^verbatim>\<open>str.lower\<close> on ASCII letters; the other bytes stay.\<close>

definition lower_char :: "char \<Rightarrow> char" where
  "lower_char c =
     (let n = (of_char c :: nat) in if 65 \<le> n \<and> n \<le> 90 then char_of (n + 32) else c)"

definition lower :: "string \<Rightarrow> string" where
  "lower s = map lower_char s"

text \<open>\<^verbatim>\<open>os.getenv(key, default)\<close>.\<close>

definition getenv :: "(string \<rightharpoonup> string) \<Rightarrow> string \<Rightarrow> string \<Rightarrow> string" where
  "getenv env k d = (case env k of None \<Rightarrow> d | Some v \<Rightarrow> v)"

text \<open>
  \<^verbatim>\<open>AEMUploader.__init__\<close>, from the environment and from what \<^verbatim>\<open>get_aem_token()\<close>
  returned (as text).
\<close>

definition AEMUploader_init :: "(string \<rightharpoonup> string) \<Rightarrow> string \<Rightarrow> AEMUploader" where
  "AEMUploader_init env token =
     (if lower (getenv env ''AEM_ENABLED'' ''false'') = ''true''
      then \<lparr>aem_enabled = True,
            aem_host = Some (getenv env ''AEM_HOST'' ''http://localhost:4502''),
            aem_token = Some token,
            aem_destination = Some (getenv env ''AEM_DESTINATION'' ''/content/dam/images''),
            put_into_date_folder =
              Some (lower (getenv env ''AEM_PUT_INTO_DATE_FOLDER'' ''false'') = ''true''),
            logger = True\<rparr>
      else \<lparr>aem_enabled = False, aem_host = None, aem_token = None, aem_destination = None,
            put_into_date_folder = None, logger = False\<rparr>)"

text \<open>Reading an attribute, and calling a method of \<^verbatim>\<open>self.logger\<close>.\<close>

definition attr :: "string \<Rightarrow> 'a option \<Rightarrow> exn + 'a" where
  "attr a v = (case v of None \<Rightarrow> Inl (AttributeError a) | Some x \<Rightarrow> Inr x)"

definition use_logger :: "AEMUploader \<Rightarrow> exn + unit" where
  "use_logger u = (if logger u then Inr () else Inl (AttributeError ''logger''))"

definition get_destination_path :: "AEMUploader \<Rightarrow> datetime \<Rightarrow> exn + string" where
  "get_destination_path u date =
     (case attr ''put_into_date_folder'' (put_into_date_folder u) of
        Inl e \<Rightarrow> Inl e
      | Inr dated \<Rightarrow>
          (case attr ''aem_destination'' (aem_destination u) of
             Inl e \<Rightarrow> Inl e
           | Inr dest \<Rightarrow>
               if dated then Inr (dest @ ''/'' @ fmt_Y date @ ''/'' @ fmt_m date) else Inr dest))"

text \<open>
  The \<^verbatim>\<open>try\<close> block of one attempt of \<^verbatim>\<open>_create_folder\<close> (lines 40-73): an exception
  (\<open>Inl\<close>) goes to the handler below.
\<close>

definition create_folder_try ::
  "AEMUploader \<Rightarrow> string \<Rightarrow> int \<Rightarrow> int \<Rightarrow> int \<Rightarrow> world \<Rightarrow> (exn + bool flow) \<times> world" where
  "create_folder_try u folder_path attempt max_retries retry_delay w =
     (case attr ''aem_token'' (aem_token u) of
        Inl e \<Rightarrow> (Inl e, w)
      | Inr token \<Rightarrow>
     (case attr ''aem_host'' (aem_host u) of
        Inl e \<Rightarrow> (Inl e, w)
      | Inr host \<Rightarrow>
     (case http (Get_json (host @ folder_path @ ''.json'')) w of
        (Transport_error, w1) \<Rightarrow> (Inl RequestException, w1)
      | (Response status body, w1) \<Rightarrow>
          if status = 200 then
            (case use_logger u of Inl e \<Rightarrow> (Inl e, w1) | Inr _ \<Rightarrow> (Inr (Return True), w1))
          else
     (case use_logger u of
        Inl e \<Rightarrow> (Inl e, w1)
      | Inr _ \<Rightarrow>
     (case http (Post_folder (host @ folder_path)) w1 of
        (Transport_error, w2) \<Rightarrow> (Inl RequestException, w2)
      | (Response status' body', w2) \<Rightarrow>
          if status' = 200 \<or> status' = 201 then
            (case sleep retry_delay w2 of
               (Inl e, w3) \<Rightarrow> (Inl e, w3)
             | (Inr _, w3) \<Rightarrow>
                 (case use_logger u of Inl e \<Rightarrow> (Inl e, w3) | Inr _ \<Rightarrow> (Inr (Return True), w3)))
          else
            (case use_logger u of
               Inl e \<Rightarrow> (Inl e, w2)
             | Inr _ \<Rightarrow>
                 if attempt < max_retries - 1 then
                   (case sleep retry_delay w2 of
                      (Inl e, w3) \<Rightarrow> (Inl e, w3)
                    | (Inr _, w3) \<Rightarrow> (Inr Continue, w3))
                 else (Inr (Return False), w2)))))))"

text \<open>
  The loop of \<^verbatim>\<open>_create_folder\<close> over the attempts that are left, with the
  \<^verbatim>\<open>except Exception\<close> handler (lines 75-80). An exception raised inside the handler
  leaves the function. When the loop runs out the function returns Python's \<^verbatim>\<open>None\<close>
  (\<open>Inr None\<close>).
\<close>

fun create_folder_loop ::
  "AEMUploader \<Rightarrow> string \<Rightarrow> int \<Rightarrow> int \<Rightarrow> int list \<Rightarrow> world \<Rightarrow> (exn + bool option) \<times> world" where
  "create_folder_loop u folder_path max_retries retry_delay [] w = (Inr None, w)"
| "create_folder_loop u folder_path max_retries retry_delay (attempt # rest) w =
     (case create_folder_try u folder_path attempt max_retries retry_delay w of
        (Inr (Return b), w1) \<Rightarrow> (Inr (Some b), w1)
      | (Inr Continue, w1) \<Rightarrow> create_folder_loop u folder_path max_retries retry_delay rest w1
      | (Inl e, w1) \<Rightarrow>
          (case use_logger u of
             Inl e' \<Rightarrow> (Inl e', w1)
           | Inr _ \<Rightarrow>
               if attempt < max_retries - 1 then
                 (case sleep retry_delay w1 of
                    (Inl e', w2) \<Rightarrow> (Inl e', w2)
                  | (Inr _, w2) \<Rightarrow> create_folder_loop u folder_path max_retries retry_delay rest w2)
               else (Inr (Some False), w1)))"

definition create_folder ::
  "AEMUploader \<Rightarrow> string \<Rightarrow> int \<Rightarrow> int \<Rightarrow> world \<Rightarrow> (exn + bool option) \<times> world" where
  "create_folder u folder_path max_retries retry_delay w =
     create_folder_loop u folder_path max_retries retry_delay (py_range max_retries) w"

text \<open>\<^verbatim>\<open>s.split(c)\<close>: the pieces between the separators, at least one piece.\<close>

fun split_on :: "char \<Rightarrow> string \<Rightarrow> string list" where
  "split_on c [] = [[]]"
| "split_on c (x # xs) =
     (if x = c then [] # split_on c xs
      else (case split_on c xs of [] \<Rightarrow> [[x]] | p # ps \<Rightarrow> (x # p) # ps))"

text \<open>
  The loop of \<^verbatim>\<open>_ensure_folders_exist\<close> (lines 92-97); \<^verbatim>\<open>_create_folder\<close> is called with
  its default bounds, and \<^verbatim>\<open>None\<close> counts as a failure (\<^verbatim>\<open>if not ...\<close>).
\<close>

fun ensure_folders_loop ::
  "AEMUploader \<Rightarrow> string \<Rightarrow> string list \<Rightarrow> world \<Rightarrow> (exn + bool) \<times> world" where
  "ensure_folders_loop u current_path [] w = (Inr True, w)"
| "ensure_folders_loop u current_path (part # parts) w =
     (if part = [] then ensure_folders_loop u current_path parts w
      else
        (case create_folder u (current_path @ ''/'' @ part) 3 2 w of
           (Inl e, w1) \<Rightarrow> (Inl e, w1)
         | (Inr r, w1) \<Rightarrow>
             if r = Some True then ensure_folders_loop u (current_path @ ''/'' @ part) parts w1
             else (Inr False, w1)))"

definition ensure_folders_exist ::
  "AEMUploader \<Rightarrow> string \<Rightarrow> world \<Rightarrow> (exn + bool) \<times> world" where
  "ensure_folders_exist u destination_path w =
     (case attr ''put_into_date_folder'' (put_into_date_folder u) of
        Inl e \<Rightarrow> (Inl e, w)
      | Inr dated \<Rightarrow>
          if \<not> dated then (Inr True, w)
          else ensure_folders_loop u [] (split_on CHR ''/'' destination_path) w)"

text \<open>
  The \<^verbatim>\<open>try\<close> block of one attempt of \<^verbatim>\<open>_initiate_upload\<close> (lines 158-181). The value
  returned is the parsed body, or Python's \<^verbatim>\<open>None\<close> (\<open>None\<close>).
\<close>

definition initiate_upload_try ::
  "AEMUploader \<Rightarrow> asset \<Rightarrow> string \<Rightarrow> int \<Rightarrow> int \<Rightarrow> int \<Rightarrow> world
     \<Rightarrow> (exn + json option flow) \<times> world" where
  "initiate_upload_try u image_path destination_path attempt max_retries retry_delay w =
     (case attr ''aem_token'' (aem_token u) of
        Inl e \<Rightarrow> (Inl e, w)
      | Inr token \<Rightarrow>
     (case asset_file image_path of
        None \<Rightarrow> (Inl OSError, w)
      | Some bytes \<Rightarrow>
     (case attr ''aem_host'' (aem_host u) of
        Inl e \<Rightarrow> (Inl e, w)
      | Inr host \<Rightarrow>
     (case use_logger u of
        Inl e \<Rightarrow> (Inl e, w)
      | Inr _ \<Rightarrow>
     (case http (Post_initiate (host @ destination_path @ ''.initiateUpload.json'')
                   (asset_name image_path) (length bytes)) w of
        (Transport_error, w1) \<Rightarrow> (Inl RequestException, w1)
      | (Response status body, w1) \<Rightarrow>
          if status = 200 then
            (case body of
               None \<Rightarrow> (Inl JSONDecodeError, w1)
             | Some j \<Rightarrow> (Inr (Return (Some j)), w1))
          else if attempt < max_retries - 1 then
            (case sleep retry_delay w1 of
               (Inl e, w2) \<Rightarrow> (Inl e, w2)
             | (Inr _, w2) \<Rightarrow> (Inr Continue, w2))
          else (Inr (Return None), w1))))))"

fun initiate_upload_loop ::
  "AEMUploader \<Rightarrow> asset \<Rightarrow> string \<Rightarrow> int \<Rightarrow> int \<Rightarrow> int list \<Rightarrow> world
     \<Rightarrow> (exn + json option) \<times> world" where
  "initiate_upload_loop u image_path destination_path max_retries retry_delay [] w = (Inr None, w)"
| "initiate_upload_loop u image_path destination_path max_retries retry_delay (attempt # rest) w =
     (case initiate_upload_try u image_path destination_path attempt max_retries retry_delay w of
        (Inr (Return r), w1) \<Rightarrow> (Inr r, w1)
      | (Inr Continue, w1) \<Rightarrow>
          initiate_upload_loop u image_path destination_path max_retries retry_delay rest w1
      | (Inl e, w1) \<Rightarrow>
          (case use_logger u of
             Inl e' \<Rightarrow> (Inl e', w1)
           | Inr _ \<Rightarrow>
               if attempt < max_retries - 1 then
                 (case sleep retry_delay w1 of
                    (Inl e', w2) \<Rightarrow> (Inl e', w2)
                  | (Inr _, w2) \<Rightarrow>
                      initiate_upload_loop u image_path destination_path max_retries retry_delay rest w2)
               else (Inr None, w1)))"

definition initiate_upload ::
  "AEMUploader \<Rightarrow> asset \<Rightarrow> string \<Rightarrow> int \<Rightarrow> int \<Rightarrow> world \<Rightarrow> (exn + json option) \<times> world" where
  "initiate_upload u image_path destination_path max_retries retry_delay w =
     initiate_upload_loop u image_path destination_path max_retries retry_delay
       (py_range max_retries) w"

text \<open>\<^verbatim>\<open>upload_info['files'][0][key]\<close>.\<close>

definition first_file_field :: "json \<Rightarrow> string \<Rightarrow> exn + json" where
  "first_file_field upload_info k =
     (case subscript_key upload_info ''files'' of
        Inl e \<Rightarrow> Inl e
      | Inr files \<Rightarrow>
          (case subscript_0 files of
             Inl e \<Rightarrow> Inl e
           | Inr f \<Rightarrow> subscript_key f k))"

text \<open>
  The \<^verbatim>\<open>for uri in upload_uris\<close> loop of \<^verbatim>\<open>_upload_binary\<close> (lines 199-204): one PUT for
  each URI, and \<^verbatim>\<open>return False\<close> at the first status outside 200, 201, 204.
\<close>

fun put_loop :: "AEMUploader \<Rightarrow> string \<Rightarrow> json list \<Rightarrow> world \<Rightarrow> (exn + bool flow) \<times> world" where
  "put_loop u file_data [] w = (Inr Continue, w)"
| "put_loop u file_data (uri # uris) w =
     (case use_logger u of
        Inl e \<Rightarrow> (Inl e, w)
      | Inr _ \<Rightarrow>
          (case http (Put_binary uri file_data) w of
             (Transport_error, w1) \<Rightarrow> (Inl RequestException, w1)
           | (Response status body, w1) \<Rightarrow>
               if status \<noteq> 200 \<and> status \<noteq> 201 \<and> status \<noteq> 204 then
                 (case use_logger u of
                    Inl e \<Rightarrow> (Inl e, w1)
                  | Inr _ \<Rightarrow> (Inr (Return False), w1))
               else put_loop u file_data uris w1))"

definition upload_binary_try ::
  "AEMUploader \<Rightarrow> asset \<Rightarrow> json \<Rightarrow> world \<Rightarrow> (exn + bool) \<times> world" where
  "upload_binary_try u image_path upload_info w =
     (case first_file_field upload_info ''uploadURIs'' of
        Inl e \<Rightarrow> (Inl e, w)
      | Inr upload_uris \<Rightarrow>
     (case use_logger u of
        Inl e \<Rightarrow> (Inl e, w)
      | Inr _ \<Rightarrow>
     (case iterate upload_uris of
        Inl e \<Rightarrow> (Inl e, w)
      | Inr uris \<Rightarrow>
     (case asset_file image_path of
        None \<Rightarrow> (Inl OSError, w)
      | Some file_data \<Rightarrow>
     (case put_loop u file_data uris w of
        (Inl e, w1) \<Rightarrow> (Inl e, w1)
      | (Inr (Return b), w1) \<Rightarrow> (Inr b, w1)
      | (Inr Continue, w1) \<Rightarrow>
          (case use_logger u of
             Inl e \<Rightarrow> (Inl e, w1)
           | Inr _ \<Rightarrow> (Inr True, w1)))))))"

definition upload_binary ::
  "AEMUploader \<Rightarrow> asset \<Rightarrow> json \<Rightarrow> world \<Rightarrow> (exn + bool) \<times> world" where
  "upload_binary u image_path upload_info w =
     (case upload_binary_try u image_path upload_info w of
        (Inl e, w1) \<Rightarrow>
          (case use_logger u of
             Inl e' \<Rightarrow> (Inl e', w1)
           | Inr _ \<Rightarrow> (Inr False, w1))
      | (Inr b, w1) \<Rightarrow> (Inr b, w1))"

text \<open>\<^verbatim>\<open>sep.join(xs)\<close>.\<close>

fun join :: "string \<Rightarrow> string list \<Rightarrow> string" where
  "join sep [] = []"
| "join sep [x] = x"
| "join sep (x # y # ys) = x @ sep @ join sep (y # ys)"

definition complete_upload_try ::
  "AEMUploader \<Rightarrow> asset \<Rightarrow> json \<Rightarrow> datetime \<Rightarrow> string list \<Rightarrow> world
     \<Rightarrow> (exn + bool) \<times> world" where
  "complete_upload_try u image_path upload_info date tags w =
     (case attr ''aem_token'' (aem_token u) of
        Inl e \<Rightarrow> (Inl e, w)
      | Inr token \<Rightarrow>
     (case first_file_field upload_info ''uploadToken'' of
        Inl e \<Rightarrow> (Inl e, w)
      | Inr upload_token \<Rightarrow>
     (case use_logger u of
        Inl e \<Rightarrow> (Inl e, w)
      | Inr _ \<Rightarrow>
     (case attr ''aem_host'' (aem_host u) of
        Inl e \<Rightarrow> (Inl e, w)
      | Inr host \<Rightarrow>
     (case subscript_key upload_info ''completeURI'' of
        Inl e \<Rightarrow> (Inl e, w)
      | Inr complete_uri \<Rightarrow>
     (case http (Post_complete host complete_uri
                  [(''uploadToken'', Json upload_token),
                   (''fileName'', Text (asset_name image_path)),
                   (''mimeType'', Text ''image/jpeg''),
                   (''jcr:title'', Text (asset_stem image_path)),
                   (''jcr:description'',
                      Text (''Uploaded on '' @ fmt_Y date @ ''-'' @ fmt_m date @ ''-'' @ fmt_d date)),
                   (''jcr:tags'', Text (join '','' tags))]) w of
        (Transport_error, w1) \<Rightarrow> (Inl RequestException, w1)
      | (Response status body, w1) \<Rightarrow>
          (case use_logger u of
             Inl e \<Rightarrow> (Inl e, w1)
           | Inr _ \<Rightarrow> (Inr (status = 200 \<or> status = 201), w1))))))))"

definition complete_upload ::
  "AEMUploader \<Rightarrow> asset \<Rightarrow> json \<Rightarrow> datetime \<Rightarrow> string list \<Rightarrow> world
     \<Rightarrow> (exn + bool) \<times> world" where
  "complete_upload u image_path upload_info date tags w =
     (case complete_upload_try u image_path upload_info date tags w of
        (Inl e, w1) \<Rightarrow>
          (case use_logger u of
             Inl e' \<Rightarrow> (Inl e', w1)
           | Inr _ \<Rightarrow> (Inr False, w1))
      | (Inr b, w1) \<Rightarrow> (Inr b, w1))"

text \<open>The \<^verbatim>\<open>try\<close> block of \<^verbatim>\<open>upload\<close> (lines 127-148).\<close>

definition upload_try ::
  "AEMUploader \<Rightarrow> asset \<Rightarrow> datetime \<Rightarrow> string list \<Rightarrow> world \<Rightarrow> (exn + bool) \<times> world" where
  "upload_try u image_path date tags w =
     (case get_destination_path u date of
        Inl e \<Rightarrow> (Inl e, w)
      | Inr destination_path \<Rightarrow>
     (case ensure_folders_exist u destination_path w of
        (Inl e, w1) \<Rightarrow> (Inl e, w1)
      | (Inr False, w1) \<Rightarrow>
          (case use_logger u of
             Inl e \<Rightarrow> (Inl e, w1)
           | Inr _ \<Rightarrow> (Inr False, w1))
      | (Inr True, w1) \<Rightarrow>
     (case use_logger u of
        Inl e \<Rightarrow> (Inl e, w1)
      | Inr _ \<Rightarrow>
     (case initiate_upload u image_path destination_path 3 2 w1 of
        (Inl e, w2) \<Rightarrow> (Inl e, w2)
      | (Inr None, w2) \<Rightarrow> (Inr False, w2)
      | (Inr (Some upload_info), w2) \<Rightarrow>
          if \<not> truthy upload_info then (Inr False, w2)
          else
     (case use_logger u of
        Inl e \<Rightarrow> (Inl e, w2)
      | Inr _ \<Rightarrow>
     (case upload_binary u image_path upload_info w2 of
        (Inl e, w3) \<Rightarrow> (Inl e, w3)
      | (Inr False, w3) \<Rightarrow> (Inr False, w3)
      | (Inr True, w3) \<Rightarrow>
     (case use_logger u of
        Inl e \<Rightarrow> (Inl e, w3)
      | Inr _ \<Rightarrow> complete_upload u image_path upload_info date tags w3)))))))"

text \<open>
  \<^verbatim>\<open>AEMUploader.upload\<close>. The disabled branch (lines 122-124) calls \<^verbatim>\<open>self.logger\<close> before
  it returns, outside the \<^verbatim>\<open>try\<close>.
\<close>

definition upload ::
  "AEMUploader \<Rightarrow> asset \<Rightarrow> datetime \<Rightarrow> string list \<Rightarrow> world \<Rightarrow> (exn + bool) \<times> world" where
  "upload u image_path date tags w =
     (if \<not> aem_enabled u then
        (case use_logger u of
           Inl e \<Rightarrow> (Inl e, w)
         | Inr _ \<Rightarrow> (Inr True, w))
      else
        (case upload_try u image_path date tags w of
           (Inl e, w1) \<Rightarrow>
             (case use_logger u of
                Inl e' \<Rightarrow> (Inl e', w1)
              | Inr _ \<Rightarrow> (Inr False, w1))
         | (Inr b, w1) \<Rightarrow> (Inr b, w1)))"

section \<open>\<^verbatim>\<open>image_processor.py\<close> and \<^verbatim>\<open>customer_structure.py\<close>\<close>

text \<open>
  A record of the replicator's logger: the level and the pieces of the f-string before they
  are put together (text, a number, an exception).
\<close>

datatype level = INFO | ERROR

datatype piece = T string | N int | E exn

type_synonym task = "string \<times> int \<times> string"

text \<open>
  The objects that \<^verbatim>\<open>main\<close> builds, and the world. The \<^verbatim>\<open>ImageProcessor\<close> and its
  \<^verbatim>\<open>CustomerStructureReplicator\<close> hold the same \<^verbatim>\<open>AEMUploader\<close> object: \<open>uploader\<close>.
  \<open>enabled\<close>, \<open>task_queue\<close>, \<open>processed_count\<close>, \<open>created_folders\<close> are the
  replicator's attributes, \<open>threads\<close> is the length of its \<^verbatim>\<open>self.threads\<close>, and
  \<open>messages\<close> are the records of its logger. \<open>images_processed\<close> is the
  \<^verbatim>\<open>processed_count\<close> of the \<^verbatim>\<open>ImageProcessor\<close> (whose messages go to the root logger
  and are not kept here).
\<close>

record system =
  uploader :: AEMUploader
  enabled :: bool
  task_queue :: "task list"
  processed_count :: int
  threads :: nat
  created_folders :: "string set"
  messages :: "(level \<times> piece list) list"
  images_processed :: int
  outside :: world

definition logging :: "level \<Rightarrow> piece list \<Rightarrow> system \<Rightarrow> system" where
  "logging l ps s = s\<lparr>messages := messages s @ [(l, ps)]\<rparr>"

text \<open>
  \<^verbatim>\<open>ImageProcessor.process_image\<close>. The steps before the upload (random name, date and
  tags, drawing, EXIF) are the next outcome of \<open>renders\<close>; when one of them raises, the
  handler of line 182 logs and the function returns. With uploads enabled, a target folder
  that is true (not \<^verbatim>\<open>None\<close>, not empty) is written to \<^verbatim>\<open>aem_uploader.aem_destination\<close>
  (line 172) and \<^verbatim>\<open>upload\<close> is called; what it returns is dropped, and what it raises is
  caught by the same handler, before the count of line 177.
\<close>

definition process_image :: "string \<Rightarrow> string option \<Rightarrow> system \<Rightarrow> system" where
  "process_image image_path target_folder s =
     (case renders (outside s) of
        [] \<Rightarrow>
          s\<lparr>outside := (outside s)
              \<lparr>trace := trace (outside s) @ [Process_image image_path target_folder]\<rparr>\<rparr>
      | None # rs \<Rightarrow>
          s\<lparr>outside := (outside s)
              \<lparr>renders := rs,
               trace := trace (outside s) @ [Process_image image_path target_folder]\<rparr>\<rparr>
      | Some (output_path, random_date, tags) # rs \<Rightarrow>
          if aem_enabled (uploader s) then
            (case upload
                    (if target_folder \<noteq> None \<and> target_folder \<noteq> Some []
                     then (uploader s)\<lparr>aem_destination := target_folder\<rparr> else uploader s)
                    output_path random_date tags
                    ((outside s)
                       \<lparr>renders := rs,
                        trace := trace (outside s) @ [Process_image image_path target_folder]\<rparr>) of
               (Inl e, w1) \<Rightarrow>
                 s\<lparr>uploader :=
                     (if target_folder \<noteq> None \<and> target_folder \<noteq> Some []
                      then (uploader s)\<lparr>aem_destination := target_folder\<rparr> else uploader s),
                   outside := w1\<rparr>
             | (Inr b, w1) \<Rightarrow>
                 s\<lparr>uploader :=
                     (if target_folder \<noteq> None \<and> target_folder \<noteq> Some []
                      then (uploader s)\<lparr>aem_destination := target_folder\<rparr> else uploader s),
                   images_processed := images_processed s + 1,
                   outside := w1\<rparr>)
          else
            s\<lparr>images_processed := images_processed s + 1,
              outside := (outside s)
                \<lparr>renders := rs,
                 trace := trace (outside s) @ [Process_image image_path target_folder]\<rparr>\<rparr>)"

text \<open>\<^verbatim>\<open>s.startswith(p)\<close>.\<close>

definition startswith :: "string \<Rightarrow> string \<Rightarrow> bool" where
  "startswith s p = (take (length p) s = p)"

text \<open>
  The loop of \<^verbatim>\<open>create_folder_structure\<close> (lines 52-66) over the parts that are left;
  \<open>Inl\<close> is an exception on its way to the handler of line 69.
\<close>

fun folder_structure_loop ::
  "string \<Rightarrow> string list \<Rightarrow> system \<Rightarrow> (exn + bool) \<times> system" where
  "folder_structure_loop current_path [] s = (Inr True, s)"
| "folder_structure_loop current_path (part # parts) s =
     (if part = [] then folder_structure_loop current_path parts s
      else if current_path @ ''/'' @ part \<in> created_folders s
      then folder_structure_loop (current_path @ ''/'' @ part) parts s
      else
        (case create_folder (uploader s) (current_path @ ''/'' @ part) 3 2 (outside s) of
           (Inl e, w1) \<Rightarrow>
             (Inl e,
              (logging INFO [T ''-> Creating folder: '', T (current_path @ ''/'' @ part)] s)
                \<lparr>outside := w1\<rparr>)
         | (Inr r, w1) \<Rightarrow>
             if r \<noteq> Some True then
               (Inr False,
                logging ERROR [T ''Failed to create folder: '', T (current_path @ ''/'' @ part)]
                  ((logging INFO [T ''-> Creating folder: '', T (current_path @ ''/'' @ part)] s)
                     \<lparr>outside := w1\<rparr>))
             else
               folder_structure_loop (current_path @ ''/'' @ part) parts
                 ((logging INFO [T ''-> Creating folder: '', T (current_path @ ''/'' @ part)] s)
                    \<lparr>outside := w1,
                     created_folders := insert (current_path @ ''/'' @ part) (created_folders s)\<rparr>)))"

definition create_folder_structure :: "string \<Rightarrow> system \<Rightarrow> bool \<times> system" where
  "create_folder_structure folder_path s =
     (case folder_structure_loop ''/content/dam''
             (drop 3 (split_on CHR ''/''
                (if \<not> startswith folder_path ''/content/dam''
                 then ''/content/dam'' @ folder_path else folder_path))) s of
        (Inl e, s1) \<Rightarrow> (False, logging ERROR [T ''Error creating folder structure: '', E e] s1)
      | (Inr b, s1) \<Rightarrow> (b, s1))"

text \<open>
  Two built-ins of Python, taken as they are: \<open>strip\<close> is \<^verbatim>\<open>str.strip\<close> and \<open>to_int\<close>
  is \<^verbatim>\<open>int\<close> on a string (\<open>None\<close> when it raises ValueError). The functions below work
  with any such pair.
\<close>

record builtins =
  strip :: "string \<Rightarrow> string"
  to_int :: "string \<Rightarrow> int option"

text \<open>
  A row of the structure file as \<^verbatim>\<open>csv.DictReader\<close> gives it: \<open>folder\<close> is a string, and
  \<open>asset_count\<close> is \<^verbatim>\<open>None\<close> when the row has one field only.
\<close>

record entry =
  folder :: string
  asset_count :: "string option"

text \<open>
  The first loop of \<^verbatim>\<open>replicate_structure\<close> (lines 106-121). \<^verbatim>\<open>None.strip()\<close> raises
  AttributeError, which no handler of the loop catches.
\<close>

fun create_all_folders :: "builtins \<Rightarrow> entry list \<Rightarrow> system \<Rightarrow> (exn + unit) \<times> system" where
  "create_all_folders py [] s = (Inr (), s)"
| "create_all_folders py (e # es) s =
     (case asset_count e of
        None \<Rightarrow> (Inl (AttributeError ''strip''), s)
      | Some c \<Rightarrow>
          (case to_int py (strip py c) of
             None \<Rightarrow>
               create_all_folders py es
                 (logging ERROR
                    [T ''Invalid asset count for folder '', T (strip py (folder e)), T '': '', T c] s)
           | Some n \<Rightarrow>
               if n = 0 then create_all_folders py es s
               else
                 (case create_folder_structure (strip py (folder e))
                         (logging INFO
                            [T ''Creating folder structure for '', T (strip py (folder e))] s) of
                    (False, s1) \<Rightarrow>
                      create_all_folders py es
                        (logging ERROR
                           [T ''Failed to create folder structure for '', T (strip py (folder e))] s1)
                  | (True, s1) \<Rightarrow> create_all_folders py es s1)))"

text \<open>\<^verbatim>\<open>random.choice(xs)\<close>: IndexError on an empty list, else the element that the next
  draw of \<open>picks\<close> points at (the first one when no draw is left).\<close>

definition random_choice :: "string list \<Rightarrow> world \<Rightarrow> (exn + string) \<times> world" where
  "random_choice xs w =
     (if xs = [] then (Inl IndexError, w)
      else
        (case picks w of
           [] \<Rightarrow> (Inr (xs ! 0), w)
         | p # ps \<Rightarrow> (Inr (xs ! (p mod length xs)), w\<lparr>picks := ps\<rparr>)))"

text \<open>
  The loop \<^verbatim>\<open>for _ in range(asset_count)\<close> (lines 141-144), with the rounds that are left;
  \<open>count\<close> is the \<^verbatim>\<open>asset_count\<close> that every task carries.
\<close>

fun put_tasks ::
  "string \<Rightarrow> int \<Rightarrow> string list \<Rightarrow> nat \<Rightarrow> int \<Rightarrow> system \<Rightarrow> (exn + int) \<times> system" where
  "put_tasks folder_path count source_images 0 total_assets s = (Inr total_assets, s)"
| "put_tasks folder_path count source_images (Suc k) total_assets s =
     (case random_choice source_images (outside s) of
        (Inl e, w1) \<Rightarrow> (Inl e, s\<lparr>outside := w1\<rparr>)
      | (Inr source_image, w1) \<Rightarrow>
          put_tasks folder_path count source_images k (total_assets + 1)
            (s\<lparr>task_queue := task_queue s @ [(folder_path, count, source_image)],
               outside := w1\<rparr>))"

text \<open>The second loop (lines 131-144); it gives \<^verbatim>\<open>total_assets\<close>.\<close>

fun queue_tasks ::
  "builtins \<Rightarrow> entry list \<Rightarrow> string list \<Rightarrow> int \<Rightarrow> system \<Rightarrow> (exn + int) \<times> system" where
  "queue_tasks py [] source_images total_assets s = (Inr total_assets, s)"
| "queue_tasks py (e # es) source_images total_assets s =
     (case asset_count e of
        None \<Rightarrow> (Inl (AttributeError ''strip''), s)
      | Some c \<Rightarrow>
          (case to_int py (strip py c) of
             None \<Rightarrow> queue_tasks py es source_images total_assets s
           | Some n \<Rightarrow>
               if n = 0 then queue_tasks py es source_images total_assets s
               else
                 (case put_tasks (strip py (folder e)) n source_images (nat n) total_assets s of
                    (Inl ex, s1) \<Rightarrow> (Inl ex, s1)
                  | (Inr total_assets', s1) \<Rightarrow> queue_tasks py es source_images total_assets' s1)))"

text \<open>
  The threads of \<^verbatim>\<open>CustomerStructureReplicator.worker\<close>. A worker is at the head of its
  loop (\<open>Ready\<close>), holds the task that \<^verbatim>\<open>get_nowait\<close> gave it (\<open>Got\<close>), has come back
  from \<^verbatim>\<open>process_image\<close> and waits for the lock (\<open>Processed\<close>), or has left the loop on
  \<^verbatim>\<open>queue.Empty\<close> (\<open>Exited\<close>). One step of one worker is atomic: the queue and the lock
  make the first and the third so in the source; \<^verbatim>\<open>process_image\<close> is taken as one step.
\<close>

datatype worker = Ready | Got task | Processed | Exited

fun worker_step :: "worker \<Rightarrow> system \<Rightarrow> worker \<times> system" where
  "worker_step Ready s =
     (case task_queue s of
        [] \<Rightarrow> (Exited, s)
      | t # ts \<Rightarrow> (Got t, s\<lparr>task_queue := ts\<rparr>))"
| "worker_step (Got (folder_path, count, source_image)) s =
     (Processed, process_image source_image (Some folder_path) s)"
| "worker_step Processed s =
     (Ready,
      logging INFO [T ''Processed '', N (processed_count s + 1), T '' assets'']
        (s\<lparr>processed_count := processed_count s + 1\<rparr>))"
| "worker_step Exited s = (Exited, s)"

text \<open>The workers that have not left their loop, by position.\<close>

definition live :: "worker list \<Rightarrow> nat list" where
  "live ws = filter (\<lambda>i. ws ! i \<noteq> Exited) [0..<length ws]"

text \<open>What a worker still has to do at least, counted in steps.\<close>

fun weight :: "worker \<Rightarrow> nat" where
  "weight Ready = 1"
| "weight (Got t) = 3"
| "weight Processed = 2"
| "weight Exited = 0"

text \<open>
  The threads run until each has left its loop (\<^verbatim>\<open>thread.join()\<close> for each). Which live
  worker takes the next step is the choice of a scheduler, a function of what it sees; a
  thread that is started late is a worker that the scheduler leaves alone until then.
\<close>

function run_workers ::
  "(worker list \<Rightarrow> system \<Rightarrow> nat) \<Rightarrow> worker list \<Rightarrow> system \<Rightarrow> system" where
  "run_workers sched ws s =
     (if live ws = [] then s
      else
        run_workers sched
          (ws[live ws ! (sched ws s mod length (live ws)) :=
                fst (worker_step (ws ! (live ws ! (sched ws s mod length (live ws)))) s)])
          (snd (worker_step (ws ! (live ws ! (sched ws s mod length (live ws)))) s)))"
  by pat_completeness auto
termination
proof (relation "measure (\<lambda>(sched, ws, s). 3 * length (task_queue s) + sum_list (map weight ws))")
  show "wf (measure (\<lambda>(sched, ws, s). 3 * length (task_queue s) + sum_list (map weight ws)))"
    by simp
next
  fix sched :: "worker list \<Rightarrow> system \<Rightarrow> nat" and ws :: "worker list" and s :: system
  assume nonempty: "live ws \<noteq> []"
  define i where "i = live ws ! (sched ws s mod length (live ws))"
  have "i \<in> set (live ws)"
    unfolding i_def using nonempty by (intro nth_mem) simp
  then have i: "i < length ws" and alive: "ws ! i \<noteq> Exited"
    by (simp_all add: live_def)
  have queue: "task_queue (process_image a b s) = task_queue s" for a b
    by (simp add: process_image_def split: list.splits option.splits prod.splits sum.splits)
  have weights: "sum_list (map weight (ws[i := x])) + weight (ws ! i) = sum_list (map weight ws) + weight x"
    for x
  proof -
    have "weight (ws ! i) \<in> set (map weight ws)" using i by simp
    then have "weight (ws ! i) \<le> sum_list (map weight ws)" by (simp add: member_le_sum_list)
    then show ?thesis using i by (simp add: map_update sum_list_update)
  qed
  have "3 * length (task_queue (snd (worker_step (ws ! i) s))) + weight (fst (worker_step (ws ! i) s))
        < 3 * length (task_queue s) + weight (ws ! i)"
    using alive
    by (cases "(ws ! i, s)" rule: worker_step.cases)
       (auto simp: queue logging_def split: list.splits)
  then have "3 * length (task_queue (snd (worker_step (ws ! i) s)))
              + sum_list (map weight (ws[i := fst (worker_step (ws ! i) s)]))
            < 3 * length (task_queue s) + sum_list (map weight ws)"
    using weights [of "fst (worker_step (ws ! i) s)"] by linarith
  then show "((sched, ws[live ws ! (sched ws s mod length (live ws)) :=
                  fst (worker_step (ws ! (live ws ! (sched ws s mod length (live ws)))) s)],
               snd (worker_step (ws ! (live ws ! (sched ws s mod length (live ws)))) s)),
              sched, ws, s)
             \<in> measure (\<lambda>(sched, ws, s). 3 * length (task_queue s) + sum_list (map weight ws))"
    unfolding i_def by simp
qed

text \<open>
  Lines 150-157: \<^verbatim>\<open>num_threads\<close> threads are started and appended to \<^verbatim>\<open>self.threads\<close>,
  then all are joined.
\<close>

definition run_threads :: "(worker list \<Rightarrow> system \<Rightarrow> nat) \<Rightarrow> int \<Rightarrow> system \<Rightarrow> system" where
  "run_threads sched num_threads s =
     run_workers sched (replicate (nat num_threads) Ready)
       (s\<lparr>threads := threads s + nat num_threads\<rparr>)"

text \<open>
  The \<^verbatim>\<open>try\<close> block of \<^verbatim>\<open>replicate_structure\<close> (lines 105-157), given the rows of the
  structure file and the source images that the two \<^verbatim>\<open>glob\<close> calls find. It ends with an
  exception, with the \<^verbatim>\<open>return\<close> of line 127 (\<open>Return ()\<close>), or at its last line
  (\<open>Continue\<close>).
\<close>

definition replicate_body ::
  "builtins \<Rightarrow> (worker list \<Rightarrow> system \<Rightarrow> nat) \<Rightarrow> (string \<rightharpoonup> string) \<Rightarrow> entry list \<Rightarrow> string list
     \<Rightarrow> system \<Rightarrow> (exn + unit flow) \<times> system" where
  "replicate_body py sched env structure source_images s =
     (case create_all_folders py structure s of
        (Inl e, s1) \<Rightarrow> (Inl e, s1)
      | (Inr _, s1) \<Rightarrow>
          if source_images = [] then
            (Inr (Return ()), logging ERROR [T ''No source images found for processing''] s1)
          else
            (case queue_tasks py structure source_images 0 s1 of
               (Inl e, s2) \<Rightarrow> (Inl e, s2)
             | (Inr total_assets, s2) \<Rightarrow>
                 (case to_int py (getenv env ''NUM_THREADS'' ''4'') of
                    None \<Rightarrow> (Inl ValueError, s2)
                  | Some requested \<Rightarrow>
                      (Inr Continue,
                       run_threads sched (min requested total_assets)
                         (logging INFO
                            [T ''Starting '', N (min requested total_assets),
                             T '' threads to process '', N total_assets, T '' assets''] s2)))))"

text \<open>
  \<^verbatim>\<open>CustomerStructureReplicator.replicate_structure\<close>; \<open>structure\<close> is what
  \<^verbatim>\<open>read_structure_file()\<close> returned. The \<^verbatim>\<open>finally\<close> clause writes the saved flag back
  on every way out of the \<^verbatim>\<open>try\<close> block.
\<close>

definition replicate_structure ::
  "builtins \<Rightarrow> (worker list \<Rightarrow> system \<Rightarrow> nat) \<Rightarrow> (string \<rightharpoonup> string) \<Rightarrow> entry list \<Rightarrow> string list
     \<Rightarrow> system \<Rightarrow> (exn + unit) \<times> system" where
  "replicate_structure py sched env structure source_images s =
     (if \<not> enabled s then
        (Inr (), logging INFO [T ''Customer structure replication is disabled''] s)
      else if structure = [] then
        (Inr (), logging ERROR [T ''No customer structure data found''] s)
      else
        (case attr ''put_into_date_folder'' (put_into_date_folder (uploader s)) of
           Inl e \<Rightarrow>
             (Inl e,
              logging INFO
                [T ''Starting customer structure replication for '', N (int (length structure)),
                 T '' folders''] s)
         | Inr original_date_folder_setting \<Rightarrow>
             (case replicate_body py sched env structure source_images
                     ((logging INFO
                         [T ''Starting customer structure replication for '',
                          N (int (length structure)), T '' folders''] s)
                        \<lparr>uploader := (uploader s)\<lparr>put_into_date_folder := Some False\<rparr>\<rparr>) of
                (Inl e, s1) \<Rightarrow>
                  (Inl e,
                   s1\<lparr>uploader :=
                        (uploader s1)\<lparr>put_into_date_folder := Some original_date_folder_setting\<rparr>\<rparr>)
              | (Inr (Return _), s1) \<Rightarrow>
                  (Inr (),
                   s1\<lparr>uploader :=
                        (uploader s1)\<lparr>put_into_date_folder := Some original_date_folder_setting\<rparr>\<rparr>)
              | (Inr Continue, s1) \<Rightarrow>
                  (Inr (),
                   logging INFO
                     [T ''Customer structure replication completed. Processed '',
                      N (processed_count s1), T '' assets'']
                     (s1\<lparr>uploader :=
                          (uploader s1)
                            \<lparr>put_into_date_folder := Some original_date_folder_setting\<rparr>\<rparr>)))))"

section \<open>Vocabulary of the statements\<close>

text \<open>
  The events that a call leaves behind: what \<open>w'\<close> holds beyond \<open>w\<close>.
\<close>

definition new_events :: "world \<Rightarrow> world \<Rightarrow> event list" where
  "new_events w w' = drop (length (trace w)) (trace w')"

fun is_check :: "event \<Rightarrow> bool" where
  "is_check (Call (Get_json url) r) = True"
| "is_check e = False"

fun is_create :: "event \<Rightarrow> bool" where
  "is_create (Call (Post_folder url) r) = True"
| "is_create e = False"

text \<open>
  An attempt of \<^verbatim>\<open>_create_folder\<close> is one round of its loop; on an uploader that has its
  attributes every round opens with the existence check, so the rounds are the checks.
\<close>

definition attempts :: "event list \<Rightarrow> nat" where
  "attempts evs = length (filter is_check evs)"

text \<open>
  The answers of the remote that make one attempt fail (a transport error or a status that
  is no success, on the check or on the creation), and those that make it succeed.
\<close>

fun failed_attempt :: "response list \<Rightarrow> bool" where
  "failed_attempt [Transport_error] = True"
| "failed_attempt [Response c b, Transport_error] = (c \<noteq> 200)"
| "failed_attempt [Response c b, Response c' b'] = (c \<noteq> 200 \<and> c' \<noteq> 200 \<and> c' \<noteq> 201)"
| "failed_attempt rs = False"

fun good_attempt :: "response list \<Rightarrow> bool" where
  "good_attempt [Response c b] = (c = 200)"
| "good_attempt [Response c b, Response c' b'] = (c \<noteq> 200 \<and> (c' = 200 \<or> c' = 201))"
| "good_attempt rs = False"

text \<open>The calls of one attempt on folder \<open>p\<close>, given its answers.\<close>

fun attempt_events :: "string \<Rightarrow> string \<Rightarrow> response list \<Rightarrow> event list" where
  "attempt_events host p [r] = [Call (Get_json (host @ p @ ''.json'')) r]"
| "attempt_events host p [r, r'] =
     [Call (Get_json (host @ p @ ''.json'')) r, Call (Post_folder (host @ p)) r']"
| "attempt_events host p rs = []"

text \<open>
  The events of the three steps of an upload, by the call that made them. The delays between
  attempts belong to the step that waits. A transfer has succeeded when its status is 200,
  201 or 204, the finalize call when its status is 200 or 201; the initiate step has
  succeeded when the answer is 200 with a JSON body, and \<open>initiate_bodies\<close> collects such
  bodies. \<open>listed_uris\<close> are the signed URIs that a body lists, as the transfer loop
  walks them.
\<close>

fun put_ok :: "response \<Rightarrow> bool" where
  "put_ok (Response c b) = (c = 200 \<or> c = 201 \<or> c = 204)"
| "put_ok Transport_error = False"

fun is_put :: "event \<Rightarrow> bool" where
  "is_put (Call (Put_binary uri d) r) = True"
| "is_put e = False"

fun is_folder_event :: "event \<Rightarrow> bool" where
  "is_folder_event (Call (Get_json url) r) = True"
| "is_folder_event (Call (Post_folder url) r) = True"
| "is_folder_event (Sleep d) = True"
| "is_folder_event e = False"

fun is_initiate_event :: "event \<Rightarrow> bool" where
  "is_initiate_event (Call (Post_initiate url n sz) r) = True"
| "is_initiate_event (Sleep d) = True"
| "is_initiate_event e = False"

fun is_complete :: "event \<Rightarrow> bool" where
  "is_complete (Call (Post_complete h c d) r) = True"
| "is_complete e = False"

fun initiate_body :: "event \<Rightarrow> json option" where
  "initiate_body (Call (Post_initiate url n sz) (Response c (Some j))) = (if c = 200 then Some j else None)"
| "initiate_body e = None"

definition initiate_ok :: "event \<Rightarrow> bool" where
  "initiate_ok e = (initiate_body e \<noteq> None)"

fun put_succeeded :: "event \<Rightarrow> bool" where
  "put_succeeded (Call (Put_binary uri d) r) = put_ok r"
| "put_succeeded e = False"

fun put_target :: "event \<Rightarrow> json" where
  "put_target (Call (Put_binary uri d) r) = uri"
| "put_target e = JNull"

fun complete_succeeded :: "event \<Rightarrow> bool" where
  "complete_succeeded (Call (Post_complete h c d) (Response st b)) = (st = 200 \<or> st = 201)"
| "complete_succeeded e = False"

definition listed_uris :: "json \<Rightarrow> json list" where
  "listed_uris upload_info =
     (case first_file_field upload_info ''uploadURIs'' of
        Inl e \<Rightarrow> []
      | Inr v \<Rightarrow> (case iterate v of Inl e \<Rightarrow> [] | Inr uris \<Rightarrow> uris))"

text \<open>\<open>adds P w w'\<close>: the history has grown from \<open>w\<close> to \<open>w'\<close> by events of kind \<open>P\<close>.\<close>

definition adds :: "(event \<Rightarrow> bool) \<Rightarrow> world \<Rightarrow> world \<Rightarrow> bool" where
  "adds P w w' = (\<exists>evs. trace w' = trace w @ evs \<and> list_all P evs)"

fun initiate_bodies :: "event list \<Rightarrow> json list" where
  "initiate_bodies [] = []"
| "initiate_bodies (e # es) =
     (case initiate_body e of None \<Rightarrow> initiate_bodies es | Some j \<Rightarrow> j # initiate_bodies es)"

text \<open>The transfers of \<open>file_data\<close> to the first URIs, with their answers.\<close>

definition puts :: "json list \<Rightarrow> string \<Rightarrow> response list \<Rightarrow> event list" where
  "puts uris file_data rs = map (\<lambda>(uri, r). Call (Put_binary uri file_data) r) (zip uris rs)"

section \<open>Examples\<close>

text \<open>An uploader as \<^verbatim>\<open>__init__\<close> builds it when \<^verbatim>\<open>AEM_ENABLED\<close> is \<^verbatim>\<open>true\<close>.\<close>

definition example_uploader :: AEMUploader where
  "example_uploader = AEMUploader_init [''AEM_ENABLED'' \<mapsto> ''true''] ''token''"

text \<open>A world in which nothing has happened yet, with the answers that the remote holds.\<close>

definition fresh_world :: "response list \<Rightarrow> world" where
  "fresh_world rs = \<lparr>responses = rs, renders = [], picks = [], trace = []\<rparr>"

definition example_asset :: asset where
  "example_asset = \<lparr>asset_name = ''calm_river.jpg'', asset_stem = ''calm_river'', asset_file = Some ''JFIF''\<rparr>"

definition example_date :: datetime where
  "example_date = \<lparr>fmt_Y = ''2020'', fmt_m = ''05'', fmt_d = ''17''\<rparr>"

text \<open>What an initiate call answers for one file with three signed URIs.\<close>

definition example_info :: json where
  "example_info =
     JObj [(''completeURI'', JStr ''/content/dam/images.completeUpload.json''),
           (''files'',
            JArr [JObj [(''fileName'', JStr ''calm_river.jpg''),
                        (''uploadToken'', JStr ''token-1''),
                        (''uploadURIs'',
                         JArr [JStr ''https://blob/1'', JStr ''https://blob/2'',
                               JStr ''https://blob/3''])]])]"

section \<open>The disabled uploader\<close>

text \<open>
  Claim C1 says that \<^verbatim>\<open>upload()\<close> returns true at once, without any outbound call and
  without raising, when uploads are disabled by configuration. On the code the call is
  issued to nobody, but \<^verbatim>\<open>upload()\<close> does not return: \<^verbatim>\<open>__init__\<close> creates
  \<^verbatim>\<open>self.logger\<close> only when \<^verbatim>\<open>AEM_ENABLED\<close> is true, and the disabled branch of
  \<^verbatim>\<open>upload()\<close> calls \<^verbatim>\<open>self.logger.info\<close> before its \<^verbatim>\<open>return True\<close>. For every
  environment that disables uploads, and every asset, capture time, tag list and world,
  \<^verbatim>\<open>upload()\<close> on the object that \<^verbatim>\<open>__init__\<close> built raises AttributeError and leaves the
  world as it was.
\<close>

theorem upload_disabled_raises:
  "lower (getenv env ''AEM_ENABLED'' ''false'') \<noteq> ''true'' \<Longrightarrow>
   upload (AEMUploader_init env token) image_path date tags w
     = (Inl (AttributeError ''logger''), w)"
  by (simp add: upload_def AEMUploader_init_def use_logger_def)

theorem upload_disabled_raises_witness:
  "lower (getenv Map.empty ''AEM_ENABLED'' ''false'') \<noteq> ''true''
   \<and> upload (AEMUploader_init Map.empty ''token'') example_asset example_date [''findme'']
         (fresh_world [])
       = (Inl (AttributeError ''logger''), fresh_world [])"
proof -
  have off: "lower (getenv Map.empty ''AEM_ENABLED'' ''false'') \<noteq> ''true''"
    by (simp add: getenv_def lower_def lower_char_def)
  show ?thesis
    using off upload_disabled_raises [OF off] by simp
qed

section \<open>The retry bound of \<^verbatim>\<open>_create_folder\<close>\<close>

lemma failed_attempt_cases:
  "failed_attempt f \<Longrightarrow>
     f = [Transport_error] \<or> (\<exists>c b. c \<noteq> 200 \<and> f = [Response c b, Transport_error])
     \<or> (\<exists>c b c' b'. c \<noteq> 200 \<and> c' \<noteq> 200 \<and> c' \<noteq> 201 \<and> f = [Response c b, Response c' b'])"
  by (induction f rule: failed_attempt.induct) auto

lemma good_attempt_cases:
  "good_attempt g \<Longrightarrow>
     (\<exists>b. g = [Response 200 b]) \<or> (\<exists>c b c' b'. c \<noteq> 200 \<and> (c' = 200 \<or> c' = 201) \<and> g = [Response c b, Response c' b'])"
  by (induction g rule: good_attempt.induct) auto

lemma loop_failed_retry:
  assumes "aem_host u = Some host" "aem_token u = Some token" "logger u"
    and "failed_attempt f" "responses w = f @ rest" "0 \<le> d" "a < mx - 1"
  shows "create_folder_loop u p mx d (a # as) w =
           create_folder_loop u p mx d as
             (w\<lparr>responses := rest, trace := trace w @ attempt_events host p f @ [Sleep d]\<rparr>)"
  using assms(1-3,5-7) failed_attempt_cases [OF assms(4)]
  by (auto simp: create_folder_try_def attr_def use_logger_def http_def sleep_def)

lemma loop_failed_last:
  assumes "aem_host u = Some host" "aem_token u = Some token" "logger u"
    and "failed_attempt f" "responses w = f @ rest" "\<not> a < mx - 1"
  shows "create_folder_loop u p mx d (a # as) w =
           (Inr (Some False), w\<lparr>responses := rest, trace := trace w @ attempt_events host p f\<rparr>)"
  using assms(1-3,5-6) failed_attempt_cases [OF assms(4)]
  by (auto simp: create_folder_try_def attr_def use_logger_def http_def sleep_def)

lemma loop_good:
  assumes "aem_host u = Some host" "aem_token u = Some token" "logger u"
    and "good_attempt g" "responses w = g @ rest" "0 \<le> d"
  shows "create_folder_loop u p mx d (a # as) w =
           (Inr (Some True),
            w\<lparr>responses := rest,
              trace := trace w @ attempt_events host p g @ (if length g = 2 then [Sleep d] else [])\<rparr>)"
  using assms(1-3,5-6) good_attempt_cases [OF assms(4)]
  by (auto simp: create_folder_try_def attr_def use_logger_def http_def sleep_def)


lemma attempts_failed: "failed_attempt f \<Longrightarrow> attempts (attempt_events host p f) = 1"
  by (auto simp: attempts_def dest!: failed_attempt_cases)

lemma attempts_good: "good_attempt g \<Longrightarrow> attempts (attempt_events host p g) = 1"
  by (auto simp: attempts_def dest!: good_attempt_cases)

lemma attempts_append: "attempts (xs @ ys) = attempts xs + attempts ys"
  by (simp add: attempts_def)

lemma attempts_Sleep: "attempts [Sleep d] = 0" "attempts [] = 0"
  by (simp_all add: attempts_def)

lemma attempts_failures:
  "\<forall>f\<in>set fs. failed_attempt f \<Longrightarrow>
   attempts (concat (map (\<lambda>f. attempt_events host p f @ [Sleep d]) fs)) = length fs"
  by (induction fs) (simp_all add: attempts_def attempts_failed [unfolded attempts_def])

lemma new_events_append: "trace w' = trace w @ evs \<Longrightarrow> new_events w w' = evs"
  by (simp add: new_events_def)

lemma loop_failures:
  assumes "aem_host u = Some host" "aem_token u = Some token" "logger u" "0 \<le> d"
  shows "\<forall>f\<in>set fs. failed_attempt f \<Longrightarrow> responses w = concat fs @ rest \<Longrightarrow>
         k + int (length fs) \<le> mx - 1 \<Longrightarrow>
         create_folder_loop u p mx d [k..mx - 1] w =
           create_folder_loop u p mx d [k + int (length fs)..mx - 1]
             (w\<lparr>responses := rest,
                trace := trace w @ concat (map (\<lambda>f. attempt_events host p f @ [Sleep d]) fs)\<rparr>)"
proof (induction fs arbitrary: k w)
  case Nil
  then have "w\<lparr>responses := rest\<rparr> = w" by (cases w) simp
  then show ?case by simp
next
  case (Cons f fs)
  have lt: "k < mx - 1" using Cons.prems(3) by simp
  then have unroll: "[k..mx - 1] = k # [k + 1..mx - 1]" by (simp add: upto_rec1)
  let ?w1 = "w\<lparr>responses := concat fs @ rest, trace := trace w @ attempt_events host p f @ [Sleep d]\<rparr>"
  have step: "create_folder_loop u p mx d (k # [k + 1..mx - 1]) w =
              create_folder_loop u p mx d [k + 1..mx - 1] ?w1"
    using Cons.prems(1,2) lt
    by (intro loop_failed_retry [OF assms(1-3) _ _ assms(4)]) simp_all
  have ih: "create_folder_loop u p mx d [k + 1..mx - 1] ?w1 =
            create_folder_loop u p mx d [k + 1 + int (length fs)..mx - 1]
              (?w1\<lparr>responses := rest,
                 trace := trace ?w1 @ concat (map (\<lambda>f. attempt_events host p f @ [Sleep d]) fs)\<rparr>)"
    using Cons.prems(1,3) by (intro Cons.IH) simp_all
  have "k + 1 + int (length fs) = k + int (length (f # fs))" by simp
  then show ?case unfolding unroll step ih by (simp add: add.assoc)
qed

lemma range3: "py_range 3 = [0, 1, 2]"
  by (simp add: py_range_def upto_rec1)

lemma try_continue:
  "create_folder_try u p a mx d w = (Inr Continue, w1) \<Longrightarrow> a < mx - 1"
  by (auto simp: create_folder_try_def http_def sleep_def
      split: sum.splits option.splits list.splits response.splits if_splits prod.splits)

lemma loop_returns_bool:
  assumes "logger u" "0 \<le> d"
  shows "as \<noteq> [] \<Longrightarrow> \<not> last as < mx - 1 \<Longrightarrow>
         \<exists>b. fst (create_folder_loop u p mx d as w) = Inr (Some b)"
proof (induction as arbitrary: w)
  case Nil
  then show ?case by simp
next
  case (Cons a as)
  obtain r w1 where t: "create_folder_try u p a mx d w = (r, w1)" by (cases "create_folder_try u p a mx d w")
  have more: "a < mx - 1 \<Longrightarrow> as \<noteq> [] \<and> \<not> last as < mx - 1" using Cons.prems by (cases as) auto
  show ?case
  proof (cases r)
    case (Inl e)
    then show ?thesis using t assms more Cons.IH
      by (auto simp: use_logger_def sleep_def)
  next
    case (Inr fl)
    show ?thesis
    proof (cases fl)
      case (Return b)
      then show ?thesis using t Inr by simp
    next
      case Continue
      then have "a < mx - 1" using t Inr try_continue by blast
      then show ?thesis using t Inr Continue more Cons.IH by simp
    qed
  qed
qed

text \<open>
  Claim C3, for \<^verbatim>\<open>_create_folder\<close> with its default bounds (3 attempts, 2 seconds) on an
  uploader that has its attributes (as \<^verbatim>\<open>__init__\<close> leaves it when uploads are enabled):
  \<^item> when the existence check answers 200, the result is true, and the check is the only
    event: no creation call, no delay;
  \<^item> after \<open>N < 3\<close> failed attempts in a row and one good attempt, the result is true
    after exactly \<open>N + 1\<close> attempts, and exactly their answers were used;
  \<^item> after 3 or more failed attempts in a row, the result is false after exactly 3
    attempts;
  \<^item> whatever the remote answers, the function returns a boolean and raises nothing.
\<close>

theorem create_folder_retry_bound:
  assumes "aem_host u = Some host" and "aem_token u = Some token" and "logger u"
  shows "(\<forall>b rest. responses w = Response 200 b # rest \<longrightarrow>
            create_folder u p 3 2 w =
              (Inr (Some True),
               w\<lparr>responses := rest,
                 trace := trace w @ [Call (Get_json (host @ p @ ''.json'')) (Response 200 b)]\<rparr>))
       \<and> (\<forall>fs g rest. (\<forall>f\<in>set fs. failed_attempt f) \<and> good_attempt g \<and> length fs < 3
              \<and> responses w = concat fs @ g @ rest \<longrightarrow>
            fst (create_folder u p 3 2 w) = Inr (Some True)
            \<and> attempts (new_events w (snd (create_folder u p 3 2 w))) = length fs + 1
            \<and> responses (snd (create_folder u p 3 2 w)) = rest)
       \<and> (\<forall>fs rest. (\<forall>f\<in>set fs. failed_attempt f) \<and> 3 \<le> length fs
              \<and> responses w = concat fs @ rest \<longrightarrow>
            fst (create_folder u p 3 2 w) = Inr (Some False)
            \<and> attempts (new_events w (snd (create_folder u p 3 2 w))) = 3)
       \<and> (\<exists>b. fst (create_folder u p 3 2 w) = Inr (Some b))"
proof -
  have present: "create_folder u p 3 2 w =
              (Inr (Some True),
               w\<lparr>responses := rest,
                 trace := trace w @ [Call (Get_json (host @ p @ ''.json'')) (Response 200 b)]\<rparr>)"
    if "responses w = Response 200 b # rest" for b rest
    using that unfolding create_folder_def range3
    by (subst loop_good [OF assms, of "[Response 200 b]" w rest]) simp_all
  have recover: "fst (create_folder u p 3 2 w) = Inr (Some True)
            \<and> attempts (new_events w (snd (create_folder u p 3 2 w))) = length fs + 1
            \<and> responses (snd (create_folder u p 3 2 w)) = rest"
    if h: "(\<forall>f\<in>set fs. failed_attempt f) \<and> good_attempt g \<and> length fs < 3
              \<and> responses w = concat fs @ g @ rest" for fs g rest
  proof -
  let ?w1 = "w\<lparr>responses := g @ rest,
                trace := trace w @ concat (map (\<lambda>f. attempt_events host p f @ [Sleep 2]) fs)\<rparr>"
  let ?w2 = "?w1\<lparr>responses := rest,
              trace := trace ?w1 @ attempt_events host p g @ (if length g = 2 then [Sleep 2] else [])\<rparr>"
  have a: "create_folder_loop u p 3 2 [0..3 - 1] w =
           create_folder_loop u p 3 2 [0 + int (length fs)..3 - 1] ?w1"
    using h by (intro loop_failures [OF assms]) simp_all
  have "int (length fs) \<le> 2" using h by simp
  then have b: "[0 + int (length fs)..3 - 1] = int (length fs) # [int (length fs) + 1..2]"
    by (simp add: upto_rec1)
  have c: "create_folder_loop u p 3 2 (int (length fs) # [int (length fs) + 1..2]) ?w1 =
           (Inr (Some True), ?w2)"
    using h by (intro loop_good [OF assms]) simp_all
  have r: "create_folder u p 3 2 w = (Inr (Some True), ?w2)"
    unfolding create_folder_def py_range_def a b c ..
  show ?thesis
    unfolding r using h
    by (simp add: new_events_def attempts_append attempts_failures attempts_good attempts_Sleep)
  qed
  have exhaust: "fst (create_folder u p 3 2 w) = Inr (Some False)
            \<and> attempts (new_events w (snd (create_folder u p 3 2 w))) = 3"
    if h: "(\<forall>f\<in>set fs. failed_attempt f) \<and> 3 \<le> length fs \<and> responses w = concat fs @ rest"
    for fs rest
  proof -
  let ?fs = "take 2 fs"
  let ?f = "fs ! 2"
  let ?rest = "concat (drop 3 fs) @ rest"
  have split: "fs = ?fs @ ?f # drop 3 fs"
    using h by (metis Cons_nth_drop_Suc append_take_drop_id eval_nat_numeral(3) less_eq_Suc_le numeral_2_eq_2 numeral_3_eq_3)
  have fails: "\<forall>f\<in>set ?fs. failed_attempt f" using h by (meson in_set_takeD)
  have fail3: "failed_attempt ?f" using h by (simp add: numeral_3_eq_3 Suc_le_eq)
  have len: "length ?fs = 2" using h by simp
  have resp: "responses w = concat ?fs @ (?f @ ?rest)"
    using h split by (metis append.assoc concat.simps(2) concat_append)
  let ?w1 = "w\<lparr>responses := ?f @ ?rest,
                trace := trace w @ concat (map (\<lambda>f. attempt_events host p f @ [Sleep 2]) ?fs)\<rparr>"
  let ?w2 = "?w1\<lparr>responses := ?rest, trace := trace ?w1 @ attempt_events host p ?f\<rparr>"
  have a: "create_folder_loop u p 3 2 [0..3 - 1] w =
           create_folder_loop u p 3 2 [0 + int (length ?fs)..3 - 1] ?w1"
    using fails resp len by (intro loop_failures [OF assms]) simp_all
  have b: "[0 + int (length ?fs)..3 - 1] = [2]" using len by simp
  have c: "create_folder_loop u p 3 2 [2] ?w1 = (Inr (Some False), ?w2)"
    using fail3 by (intro loop_failed_last [OF assms]) simp_all
  have r: "create_folder u p 3 2 w = (Inr (Some False), ?w2)"
    unfolding create_folder_def py_range_def a b c ..
  show ?thesis
    unfolding r using fails fail3 len
    by (simp add: new_events_def attempts_append attempts_failures attempts_failed)
  qed
  have total: "\<exists>b. fst (create_folder u p 3 2 w) = Inr (Some b)"
    unfolding create_folder_def range3
    using loop_returns_bool [OF assms(3), of 2 "[0, 1, 2]" 3 p w] by simp
  show ?thesis using present recover exhaust total by blast
qed

theorem create_folder_retry_bound_witness:
  "aem_host example_uploader = Some ''http://localhost:4502''
   \<and> aem_token example_uploader = Some ''token''
   \<and> logger example_uploader
   \<and> failed_attempt [Transport_error]
   \<and> failed_attempt [Response 404 None, Response 500 None]
   \<and> good_attempt [Response 404 None, Response 201 None]
   \<and> fst (create_folder example_uploader ''/content/dam/acme'' 3 2
             (fresh_world [Transport_error, Response 404 None, Response 500 None,
                           Response 404 None, Response 201 None]))
       = Inr (Some True)
   \<and> attempts
         (new_events
            (fresh_world [Transport_error, Response 404 None, Response 500 None,
                          Response 404 None, Response 201 None])
            (snd (create_folder example_uploader ''/content/dam/acme'' 3 2
                    (fresh_world [Transport_error, Response 404 None, Response 500 None,
                                  Response 404 None, Response 201 None]))))
       = 3"
proof -
  have host: "aem_host example_uploader = Some ''http://localhost:4502''"
    and token: "aem_token example_uploader = Some ''token''"
    and log: "logger example_uploader"
    by (simp_all add: example_uploader_def AEMUploader_init_def getenv_def lower_def lower_char_def)
  show ?thesis
    using host token log
      create_folder_retry_bound [OF host token log,
        of "fresh_world [Transport_error, Response 404 None, Response 500 None,
                         Response 404 None, Response 201 None]"
           "''/content/dam/acme''",
        THEN conjunct2, THEN conjunct1, rule_format,
        of "[[Transport_error], [Response 404 None, Response 500 None]]"
           "[Response 404 None, Response 201 None]" "[]"]
    by (simp add: fresh_world_def)
qed

section \<open>The order of the three steps\<close>

lemma adds_refl: "adds P w w"
  by (simp add: adds_def)

lemma adds_trans: "adds P w w1 \<Longrightarrow> adds P w1 w2 \<Longrightarrow> adds P w w2"
  by (auto simp: adds_def)

lemma adds_http: "P (Call req (fst (http req w))) \<Longrightarrow> adds P w (snd (http req w))"
  by (auto simp: adds_def http_def split: list.splits)

lemma adds_sleep: "P (Sleep d) \<Longrightarrow> adds P w (snd (sleep d w))"
  by (auto simp: adds_def sleep_def)

lemma create_folder_try_adds:
  "adds is_folder_event w (snd (create_folder_try u p a mx d w))"
  by (auto simp: create_folder_try_def adds_def http_def sleep_def
      split: sum.splits list.splits response.splits if_splits)

lemma create_folder_loop_adds:
  "adds is_folder_event w (snd (create_folder_loop u p mx d as w))"
proof (induction as arbitrary: w)
  case Nil
  show ?case by (simp add: adds_refl)
next
  case (Cons a as)
  obtain r w1 where t: "create_folder_try u p a mx d w = (r, w1)"
    by (cases "create_folder_try u p a mx d w")
  have a1: "adds is_folder_event w w1" using create_folder_try_adds [of w u p a mx d] t by simp
  have sl: "adds is_folder_event w1 (snd (sleep d w1))" by (simp add: adds_sleep)
  have ih1: "adds is_folder_event w (snd (create_folder_loop u p mx d as w1))"
    using a1 Cons.IH adds_trans by blast
  have ih2: "adds is_folder_event w (snd (create_folder_loop u p mx d as (snd (sleep d w1))))"
    using a1 sl Cons.IH adds_trans by blast
  have a2: "adds is_folder_event w (snd (sleep d w1))" using a1 sl adds_trans by blast
  show ?case
    using t a1 a2 ih1 ih2
    by (auto split: sum.splits flow.splits prod.splits)
qed

lemma ensure_folders_loop_adds:
  "adds is_folder_event w (snd (ensure_folders_loop u cp parts w))"
proof (induction parts arbitrary: cp w)
  case Nil
  show ?case by (simp add: adds_refl)
next
  case (Cons part parts)
  have c: "adds is_folder_event w (snd (create_folder u (cp @ ''/'' @ part) 3 2 w))"
    by (simp add: create_folder_def create_folder_loop_adds)
  show ?case
    using c Cons.IH adds_trans
    by (auto split: prod.splits sum.splits)
qed

lemma ensure_folders_exist_adds:
  "adds is_folder_event w (snd (ensure_folders_exist u p w))"
  by (auto simp: ensure_folders_exist_def adds_refl ensure_folders_loop_adds split: sum.splits)



lemma initiate_bodies_append:
  "initiate_bodies (xs @ ys) = initiate_bodies xs @ initiate_bodies ys"
  by (induction xs) (simp_all split: option.splits)

lemma initiate_upload_try_events:
  "\<exists>evs. trace (snd (initiate_upload_try u i p a mx d w)) = trace w @ evs
         \<and> list_all is_initiate_event evs
         \<and> initiate_bodies evs =
             (case fst (initiate_upload_try u i p a mx d w) of
                Inr (Return (Some j)) \<Rightarrow> [j] | _ \<Rightarrow> [])"
  by (auto simp: initiate_upload_try_def http_def sleep_def
      split: sum.splits list.splits response.splits if_splits option.splits)

lemma initiate_upload_loop_events:
  "\<exists>evs. trace (snd (initiate_upload_loop u i p mx d as w)) = trace w @ evs
         \<and> list_all is_initiate_event evs
         \<and> initiate_bodies evs =
             (case fst (initiate_upload_loop u i p mx d as w) of
                Inr (Some j) \<Rightarrow> [j] | _ \<Rightarrow> [])"
proof (induction as arbitrary: w)
  case Nil
  show ?case by simp
next
  case (Cons a as)
  obtain r w1 where t: "initiate_upload_try u i p a mx d w = (r, w1)"
    by (cases "initiate_upload_try u i p a mx d w")
  obtain e1 where e1: "trace w1 = trace w @ e1" "list_all is_initiate_event e1"
    "initiate_bodies e1 = (case r of Inr (Return (Some j)) \<Rightarrow> [j] | _ \<Rightarrow> [])"
    using initiate_upload_try_events [of u i p a mx d w] t by auto
  have rec: "\<exists>evs. trace (snd (initiate_upload_loop u i p mx d as w')) = trace w @ evs
         \<and> list_all is_initiate_event evs
         \<and> initiate_bodies evs =
             (case fst (initiate_upload_loop u i p mx d as w') of
                Inr (Some j) \<Rightarrow> [j] | _ \<Rightarrow> [])"
    if w': "trace w' = trace w1 @ e" "list_all is_initiate_event e" "initiate_bodies e = []"
      and no: "initiate_bodies e1 = []" for w' e
  proof -
    obtain e2 where e2: "trace (snd (initiate_upload_loop u i p mx d as w')) = trace w' @ e2"
      "list_all is_initiate_event e2"
      "initiate_bodies e2 =
             (case fst (initiate_upload_loop u i p mx d as w') of
                Inr (Some j) \<Rightarrow> [j] | _ \<Rightarrow> [])"
      using Cons.IH [of w'] by auto
    have "trace (snd (initiate_upload_loop u i p mx d as w')) = trace w @ (e1 @ e @ e2)"
      using e1(1) w'(1) e2(1) by simp
    moreover have "list_all is_initiate_event (e1 @ e @ e2)" using e1(2) w'(2) e2(2) by simp
    moreover have "initiate_bodies (e1 @ e @ e2) =
             (case fst (initiate_upload_loop u i p mx d as w') of
                Inr (Some j) \<Rightarrow> [j] | _ \<Rightarrow> [])"
      using e2(3) no w'(3) by (simp add: initiate_bodies_append)
    ultimately show ?thesis by blast
  qed
  show ?case
  proof (cases r)
    case (Inl ex)
    then have no: "initiate_bodies e1 = []" using e1(3) by simp
    show ?thesis
    proof (cases "logger u \<and> a < mx - 1 \<and> 0 \<le> d")
      case True
      have "initiate_upload_loop u i p mx d (a # as) w =
              initiate_upload_loop u i p mx d as (w1\<lparr>trace := trace w1 @ [Sleep d]\<rparr>)"
        using t Inl True by (simp add: use_logger_def sleep_def)
      then show ?thesis using rec [of "w1\<lparr>trace := trace w1 @ [Sleep d]\<rparr>" "[Sleep d]"] no
        by simp
    next
      case False
      then have "snd (initiate_upload_loop u i p mx d (a # as) w) = w1
          \<and> (\<forall>j. fst (initiate_upload_loop u i p mx d (a # as) w) \<noteq> Inr (Some j))"
        using t Inl by (auto simp: use_logger_def sleep_def)
      then show ?thesis using e1 no
        by (auto split: sum.splits option.splits)
    qed
  next
    case (Inr fl)
    show ?thesis
    proof (cases fl)
      case (Return v)
      then show ?thesis using t Inr e1
        by (auto split: option.splits)
    next
      case Continue
      then have no: "initiate_bodies e1 = []" using e1(3) Inr by simp
      have "initiate_upload_loop u i p mx d (a # as) w = initiate_upload_loop u i p mx d as w1"
        using t Inr Continue by simp
      then show ?thesis using rec [of w1 "[]"] no by simp
    qed
  qed
qed

lemma initiate_upload_events:
  "\<exists>evs. trace (snd (initiate_upload u i p mx d w)) = trace w @ evs
         \<and> list_all is_initiate_event evs
         \<and> initiate_bodies evs =
             (case fst (initiate_upload u i p mx d w) of
                Inr (Some j) \<Rightarrow> [j] | _ \<Rightarrow> [])"
  unfolding initiate_upload_def by (rule initiate_upload_loop_events)

lemma http_trace: "trace (snd (http req w)) = trace w @ [Call req (fst (http req w))]"
  by (simp add: http_def split: list.splits)

lemma put_loop_unfold:
  "put_loop u d (uri # uris) w =
     (if \<not> logger u then (Inl (AttributeError ''logger''), w)
      else if \<not> put_ok (fst (http (Put_binary uri d) w)) then
        ((if fst (http (Put_binary uri d) w) = Transport_error then Inl RequestException
          else Inr (Return False)), snd (http (Put_binary uri d) w))
      else put_loop u d uris (snd (http (Put_binary uri d) w)))"
  by (cases "http (Put_binary uri d) w"; cases "fst (http (Put_binary uri d) w)")
     (auto simp: use_logger_def)

lemma put_loop_events:
  "\<exists>ps. trace (snd (put_loop u d uris w)) = trace w @ ps \<and> list_all is_put ps
        \<and> (fst (put_loop u d uris w) = Inr Continue \<longrightarrow>
              list_all put_succeeded ps \<and> map put_target ps = uris)"
proof (induction uris arbitrary: w)
  case Nil
  show ?case by simp
next
  case (Cons uri uris)
  define r where "r = fst (http (Put_binary uri d) w)"
  define w1 where "w1 = snd (http (Put_binary uri d) w)"
  have tr: "trace w1 = trace w @ [Call (Put_binary uri d) r]"
    unfolding w1_def r_def by (rule http_trace)
  show ?case
  proof (cases "logger u")
    case False
    then show ?thesis by (simp add: put_loop_unfold del: put_loop.simps)
  next
    case lg: True
    show ?thesis
    proof (cases "put_ok r")
      case False
      then show ?thesis using lg tr unfolding w1_def r_def
        by (simp add: put_loop_unfold del: put_loop.simps)
    next
      case True
      have step: "put_loop u d (uri # uris) w = put_loop u d uris w1"
        using lg True unfolding w1_def r_def by (simp add: put_loop_unfold del: put_loop.simps)
      from Cons.IH [of w1] obtain ps where
        ps: "trace (snd (put_loop u d uris w1)) = trace w1 @ ps" "list_all is_put ps"
        "fst (put_loop u d uris w1) = Inr Continue \<longrightarrow>
              list_all put_succeeded ps \<and> map put_target ps = uris"
        by (elim exE conjE)
      have a: "trace (snd (put_loop u d (uri # uris) w)) = trace w @ (Call (Put_binary uri d) r # ps)"
        by (simp only: step ps(1) tr append_Cons append_Nil append_assoc)
      have b: "list_all is_put (Call (Put_binary uri d) r # ps)" using ps(2) by simp
      have c: "fst (put_loop u d (uri # uris) w) = Inr Continue \<longrightarrow>
              list_all put_succeeded (Call (Put_binary uri d) r # ps)
              \<and> map put_target (Call (Put_binary uri d) r # ps) = uri # uris"
        using ps(3) True by (simp only: step) simp
      show ?thesis
        by (intro exI [of _ "Call (Put_binary uri d) r # ps"] conjI a b c)
    qed
  qed
qed

lemma put_loop_never_true: "fst (put_loop u d uris w) \<noteq> Inr (Return True)"
proof (induction uris arbitrary: w)
  case Nil
  show ?case by simp
next
  case (Cons uri uris)
  show ?case using Cons.IH [of "snd (http (Put_binary uri d) w)"]
    by (simp add: put_loop_unfold del: put_loop.simps)
qed

lemma upload_binary_events:
  "\<exists>ps. trace (snd (upload_binary u i j w)) = trace w @ ps \<and> list_all is_put ps
        \<and> (fst (upload_binary u i j w) = Inr True \<longrightarrow>
              list_all put_succeeded ps \<and> map put_target ps = listed_uris j)"
proof -
  have early: ?thesis if "fst (upload_binary_try u i j w) \<noteq> Inr True" "snd (upload_binary_try u i j w) = w"
  proof -
    have "snd (upload_binary u i j w) = w \<and> fst (upload_binary u i j w) \<noteq> Inr True"
      using that by (cases "upload_binary_try u i j w"; cases "fst (upload_binary_try u i j w)")
        (auto simp: upload_binary_def use_logger_def)
    then show ?thesis by simp
  qed
  show ?thesis
  proof (cases "first_file_field j ''uploadURIs''")
    case (Inl e)
    then show ?thesis by (intro early) (simp_all add: upload_binary_try_def)
  next
    case v: (Inr v)
    show ?thesis
    proof (cases "logger u")
      case False
      then show ?thesis using v by (intro early) (simp_all add: upload_binary_try_def use_logger_def)
    next
      case lg: True
      show ?thesis
      proof (cases "iterate v")
        case (Inl e)
        then show ?thesis using v lg
          by (intro early) (simp_all add: upload_binary_try_def use_logger_def)
      next
        case uris: (Inr uris)
        show ?thesis
        proof (cases "asset_file i")
          case None
          then show ?thesis using v lg uris
            by (intro early) (simp_all add: upload_binary_try_def use_logger_def)
        next
          case (Some file_data)
          obtain ps where ps: "trace (snd (put_loop u file_data uris w)) = trace w @ ps"
            "list_all is_put ps"
            "fst (put_loop u file_data uris w) = Inr Continue \<longrightarrow>
              list_all put_succeeded ps \<and> map put_target ps = uris"
            using put_loop_events [of u file_data uris w] by blast
          obtain r w1 where l: "put_loop u file_data uris w = (r, w1)"
            by (cases "put_loop u file_data uris w")
          have nt: "r \<noteq> Inr (Return True)"
            using put_loop_never_true [of u file_data uris w] l by simp
          have t: "upload_binary_try u i j w =
                    (case r of Inl e \<Rightarrow> Inl e | Inr (Return b) \<Rightarrow> Inr b | Inr Continue \<Rightarrow> Inr True, w1)"
            using v lg uris Some l
            by (simp add: upload_binary_try_def use_logger_def split: sum.splits flow.splits)
          have "snd (upload_binary u i j w) = w1"
            using t lg by (simp add: upload_binary_def use_logger_def split: sum.splits flow.splits)
          then have a: "trace (snd (upload_binary u i j w)) = trace w @ ps"
            using ps(1) l by simp
          have "fst (upload_binary u i j w) = Inr True \<longrightarrow> r = Inr Continue"
            using t lg nt
            by (simp add: upload_binary_def use_logger_def split: sum.splits flow.splits)
          then have b: "fst (upload_binary u i j w) = Inr True \<longrightarrow>
              list_all put_succeeded ps \<and> map put_target ps = listed_uris j"
            using ps(3) l v uris by (simp add: listed_uris_def)
          show ?thesis by (intro exI [of _ ps] conjI a ps(2) b)
        qed
      qed
    qed
  qed
qed

lemma complete_upload_events:
  "\<exists>cs. trace (snd (complete_upload u i j date tags w)) = trace w @ cs \<and> list_all is_complete cs
        \<and> (fst (complete_upload u i j date tags w) = Inr True \<longrightarrow> list_ex complete_succeeded cs)"
  by (auto simp: complete_upload_def complete_upload_try_def http_def use_logger_def attr_def
      split: sum.splits option.splits list.splits response.splits)


lemma folder_events_other:
  "list_all is_folder_event xs \<Longrightarrow>
     initiate_bodies xs = [] \<and> filter is_put xs = [] \<and> filter is_complete xs = []
     \<and> \<not> list_ex complete_succeeded xs"
proof (induction xs)
  case Nil
  show ?case by simp
next
  case (Cons e xs)
  then show ?case by (cases e rule: is_folder_event.cases) simp_all
qed

lemma initiate_events_other:
  "list_all is_initiate_event xs \<Longrightarrow>
     filter is_put xs = [] \<and> filter is_complete xs = [] \<and> \<not> list_ex complete_succeeded xs"
proof (induction xs)
  case Nil
  show ?case by simp
next
  case (Cons e xs)
  then show ?case by (cases e rule: is_initiate_event.cases) simp_all
qed

lemma put_events_other:
  "list_all is_put xs \<Longrightarrow>
     initiate_bodies xs = [] \<and> filter is_put xs = xs \<and> filter is_complete xs = []
     \<and> \<not> list_ex complete_succeeded xs"
proof (induction xs)
  case Nil
  show ?case by simp
next
  case (Cons e xs)
  then show ?case by (cases e rule: is_put.cases) simp_all
qed

lemma complete_events_other:
  "list_all is_complete xs \<Longrightarrow>
     initiate_bodies xs = [] \<and> filter is_put xs = [] \<and> filter is_complete xs = xs"
proof (induction xs)
  case Nil
  show ?case by simp
next
  case (Cons e xs)
  then show ?case by (cases e rule: is_complete.cases) simp_all
qed

lemma upload_segments:
  assumes "aem_enabled u" and "logger u"
  shows "\<exists>fs ns ps cs b.
           trace (snd (upload u i date tags w)) = trace w @ fs @ ns @ ps @ cs
         \<and> list_all is_folder_event fs \<and> list_all is_initiate_event ns
         \<and> list_all is_put ps \<and> list_all is_complete cs
         \<and> (ps \<noteq> [] \<longrightarrow> initiate_bodies ns \<noteq> [])
         \<and> (cs \<noteq> [] \<longrightarrow>
              (\<exists>j. initiate_bodies ns = [j] \<and> map put_target ps = listed_uris j)
              \<and> list_all put_succeeded ps)
         \<and> fst (upload u i date tags w) = Inr b
         \<and> (b \<longrightarrow> list_ex complete_succeeded cs)"
proof -
  have final: ?thesis
    if "upload u i date tags w = (Inr b, w')" "trace w' = trace w @ fs @ ns @ ps @ cs"
      "list_all is_folder_event fs" "list_all is_initiate_event ns"
      "list_all is_put ps" "list_all is_complete cs"
      "ps \<noteq> [] \<longrightarrow> initiate_bodies ns \<noteq> []"
      "cs \<noteq> [] \<longrightarrow>
              (\<exists>j. initiate_bodies ns = [j] \<and> map put_target ps = listed_uris j)
              \<and> list_all put_succeeded ps"
      "b \<longrightarrow> list_ex complete_succeeded cs" for b w' fs ns ps cs
    apply (rule exI [of _ fs], rule exI [of _ ns], rule exI [of _ ps], rule exI [of _ cs],
        rule exI [of _ b])
    using that by simp
  show ?thesis
  proof (cases "get_destination_path u date")
    case (Inl e)
    have up: "upload u i date tags w = (Inr False, w)"
      using assms Inl by (simp add: upload_def upload_try_def use_logger_def)
    show ?thesis by (rule final [of False w "[]" "[]" "[]" "[]"]) (use up in simp_all)
  next
    case dp: (Inr dp)
    obtain rf w1 where f: "ensure_folders_exist u dp w = (rf, w1)"
      by (cases "ensure_folders_exist u dp w")
    from ensure_folders_exist_adds [of w u dp] f obtain fs where
      fs: "trace w1 = trace w @ fs" "list_all is_folder_event fs"
      by (auto simp: adds_def)
    show ?thesis
    proof (cases "rf = Inr True")
      case False
      have up: "upload u i date tags w = (Inr False, w1)"
        using assms dp f False
        by (cases rf) (auto simp: upload_def upload_try_def use_logger_def)
      show ?thesis by (rule final [of False w1 fs "[]" "[]" "[]"]) (use up fs in simp_all)
    next
      case ft: True
      obtain ri w2 where n: "initiate_upload u i dp 3 2 w1 = (ri, w2)"
        by (cases "initiate_upload u i dp 3 2 w1")
      from initiate_upload_events [of u i dp 3 2 w1] n obtain ns where
        ns: "trace w2 = trace w1 @ ns" "list_all is_initiate_event ns"
        "initiate_bodies ns = (case ri of Inr (Some j) \<Rightarrow> [j] | _ \<Rightarrow> [])"
        by auto
      show ?thesis
      proof (cases "\<exists>j. ri = Inr (Some j) \<and> truthy j")
        case False
        have up: "upload u i date tags w = (Inr False, w2)"
          using assms dp f ft n False
          by (cases ri; cases "projr ri")
             (auto simp: upload_def upload_try_def use_logger_def)
        show ?thesis
          by (rule final [of False w2 fs ns "[]" "[]"]) (use up fs ns in simp_all)
      next
        case True
        then obtain j where j: "ri = Inr (Some j)" "truthy j" by blast
        have bodies: "initiate_bodies ns = [j]" using ns(3) j by simp
        obtain rb w3 where p: "upload_binary u i j w2 = (rb, w3)"
          by (cases "upload_binary u i j w2")
        from upload_binary_events [of u i j w2] p obtain ps where
          ps: "trace w3 = trace w2 @ ps" "list_all is_put ps"
          "rb = Inr True \<longrightarrow> list_all put_succeeded ps \<and> map put_target ps = listed_uris j"
          by auto
        show ?thesis
        proof (cases "rb = Inr True")
          case False
          have up: "upload u i date tags w = (Inr False, w3)"
            using assms dp f ft n j p False
            by (cases rb) (auto simp: upload_def upload_try_def use_logger_def)
          show ?thesis
            by (rule final [of False w3 fs ns ps "[]"]) (use up fs ns(1,2) ps bodies in simp_all)
        next
          case pt: True
          obtain rc w4 where c: "complete_upload u i j date tags w3 = (rc, w4)"
            by (cases "complete_upload u i j date tags w3")
          from complete_upload_events [of u i j date tags w3] c obtain cs where
            cs: "trace w4 = trace w3 @ cs" "list_all is_complete cs"
            "rc = Inr True \<longrightarrow> list_ex complete_succeeded cs"
            by auto
          have up: "upload u i date tags w = (Inr (rc = Inr True), w4)"
            using assms dp f ft n j p pt c
            by (cases rc) (auto simp: upload_def upload_try_def use_logger_def)
          show ?thesis
            by (rule final [of "rc = Inr True" w4 fs ns ps cs]) (use up fs ns(1,2) ps cs bodies pt in simp_all)
        qed
      qed
    qed
  qed
qed

section \<open>The binary transfer\<close>

lemma puts_Cons: "puts (uri # uris) d (r # rs) = Call (Put_binary uri d) r # puts uris d rs"
  by (simp add: puts_def)

lemma puts_Nil: "puts uris d [] = []" "puts [] d rs = []"
  by (simp_all add: puts_def)

lemma put_loop_ok:
  assumes "logger u"
  shows "length rs = length uris \<Longrightarrow> \<forall>r\<in>set rs. put_ok r \<Longrightarrow> responses w = rs @ rest \<Longrightarrow>
         put_loop u d uris w =
           (Inr Continue, w\<lparr>responses := rest, trace := trace w @ puts uris d rs\<rparr>)"
proof (induction uris arbitrary: rs w)
  case Nil
  then have "w\<lparr>responses := rest\<rparr> = w" by (cases w) simp
  with Nil show ?case by (simp add: puts_Nil)
next
  case (Cons uri uris)
  then obtain r rs' where rs: "rs = r # rs'" by (cases rs) auto
  obtain c b where r: "r = Response c b" "c = 200 \<or> c = 201 \<or> c = 204"
    using Cons.prems(2) rs by (cases r) auto
  let ?w1 = "w\<lparr>responses := rs' @ rest, trace := trace w @ [Call (Put_binary uri d) r]\<rparr>"
  have step: "put_loop u d (uri # uris) w = put_loop u d uris ?w1"
    using assms Cons.prems(3) rs r by (auto simp: use_logger_def http_def)
  have "put_loop u d uris ?w1 =
          (Inr Continue, ?w1\<lparr>responses := rest, trace := trace ?w1 @ puts uris d rs'\<rparr>)"
    using Cons.prems rs by (intro Cons.IH) simp_all
  then show ?case unfolding step rs by (simp add: puts_Cons)
qed

lemma put_loop_fail:
  assumes "logger u"
  shows "length rs < length uris \<Longrightarrow> \<forall>r\<in>set rs. put_ok r \<Longrightarrow> \<not> put_ok bad \<Longrightarrow>
         responses w = rs @ bad # rest \<or> (responses w = rs \<and> bad = Transport_error \<and> rest = []) \<Longrightarrow>
         put_loop u d uris w =
           ((if bad = Transport_error then Inl RequestException else Inr (Return False)),
            w\<lparr>responses := rest,
              trace := trace w @ puts (take (Suc (length rs)) uris) d (rs @ [bad])\<rparr>)"
proof (induction uris arbitrary: rs w)
  case Nil
  then show ?case by simp
next
  case (Cons uri uris)
  show ?case
  proof (cases rs)
    case Nil
    then show ?thesis
      using assms Cons.prems
      by (cases bad) (auto simp: use_logger_def http_def puts_def)
  next
    case (Cons r rs')
    obtain c b where r: "r = Response c b" "c = 200 \<or> c = 201 \<or> c = 204"
      using Cons.prems(2) Cons by (cases r) auto
    let ?w1 = "w\<lparr>responses := tl (responses w), trace := trace w @ [Call (Put_binary uri d) r]\<rparr>"
    have step: "put_loop u d (uri # uris) w = put_loop u d uris ?w1"
      using assms Cons.prems(4) Cons r by (auto simp: use_logger_def http_def)
    have "put_loop u d uris ?w1 =
          ((if bad = Transport_error then Inl RequestException else Inr (Return False)),
            ?w1\<lparr>responses := rest,
              trace := trace ?w1 @ puts (take (Suc (length rs')) uris) d (rs' @ [bad])\<rparr>)"
      using Cons.prems Cons by (intro Cons.IH) auto
    then show ?thesis unfolding step Cons by (simp add: puts_Cons)
  qed
qed

text \<open>
  Claim C5, for \<^verbatim>\<open>_upload_binary\<close> on an uploader with its logger, an initiate answer whose
  first file lists the signed URIs \<open>uris\<close>, and a readable file:
  \<^item> when the next answers are a success for every URI, the step issues one PUT for each
    URI, in the order of the list, and returns true;
  \<^item> when the answers are a success for the first \<open>k\<close> URIs and a failure (a status
    outside 200, 201, 204, or a transport error) for the next one, the step issues exactly
    \<open>k + 1\<close> PUTs, to the first \<open>k + 1\<close> URIs in order, each once, none to a later URI,
    and returns false.
\<close>

theorem upload_binary_all_or_abort:
  assumes "logger u"
    and "first_file_field upload_info ''uploadURIs'' = Inr (JArr uris)"
    and "asset_file image_path = Some file_data"
  shows "(\<forall>rs rest. length rs = length uris \<and> (\<forall>r\<in>set rs. put_ok r) \<and> responses w = rs @ rest \<longrightarrow>
            upload_binary u image_path upload_info w =
              (Inr True, w\<lparr>responses := rest, trace := trace w @ puts uris file_data rs\<rparr>))
       \<and> (\<forall>rs bad rest. length rs < length uris \<and> (\<forall>r\<in>set rs. put_ok r) \<and> \<not> put_ok bad
              \<and> (responses w = rs @ bad # rest
                  \<or> responses w = rs \<and> bad = Transport_error \<and> rest = []) \<longrightarrow>
            upload_binary u image_path upload_info w =
              (Inr False,
               w\<lparr>responses := rest,
                 trace := trace w @ puts (take (length rs + 1) uris) file_data (rs @ [bad])\<rparr>))"
proof -
  have all_ok: "upload_binary u image_path upload_info w =
              (Inr True, w\<lparr>responses := rest, trace := trace w @ puts uris file_data rs\<rparr>)"
    if "length rs = length uris \<and> (\<forall>r\<in>set rs. put_ok r) \<and> responses w = rs @ rest" for rs rest
    using that assms put_loop_ok [OF assms(1), of rs uris w rest file_data]
    by (simp add: upload_binary_def upload_binary_try_def use_logger_def)
  have abort: "upload_binary u image_path upload_info w =
              (Inr False,
               w\<lparr>responses := rest,
                 trace := trace w @ puts (take (length rs + 1) uris) file_data (rs @ [bad])\<rparr>)"
    if "length rs < length uris \<and> (\<forall>r\<in>set rs. put_ok r) \<and> \<not> put_ok bad
              \<and> (responses w = rs @ bad # rest
                  \<or> responses w = rs \<and> bad = Transport_error \<and> rest = [])" for rs bad rest
    using that assms put_loop_fail [OF assms(1), of rs uris bad w rest file_data]
    by (simp add: upload_binary_def upload_binary_try_def use_logger_def)
  show ?thesis using all_ok abort by blast
qed

end
